theory Spec2Isabelle
  imports Complex_Main
begin

section \<open>Python values and library functions\<close>

text \<open>
  The theory embeds the decision logic of the two clients of the device service:
  \<^verbatim>\<open>clients/llm-controller/controller.py\<close> (the two-stage controller) and
  \<^verbatim>\<open>tools/actl_agent.py\<close> (the function-call agent).

  Python's unbounded \<^verbatim>\<open>int\<close> is \<^typ>\<open>int\<close>; \<^verbatim>\<open>//\<close> and \<^verbatim>\<open>%\<close> are floor division and
  its remainder, which is what \<open>div\<close> and \<open>mod\<close> are on \<^typ>\<open>int\<close>.  A Python \<^verbatim>\<open>float\<close>
  is modelled by the exact number it denotes (\<^typ>\<open>rat\<close> for ratios, \<^typ>\<open>real\<close> where a
  logarithm is taken); rounding of the floating-point operations is not modelled.  A
  \<^verbatim>\<open>str\<close> is a \<^typ>\<open>string\<close>: one \<^typ>\<open>char\<close> per code unit, classified as Python
  classifies the ASCII characters; characters outside ASCII are opaque (neither
  whitespace, digits nor letters with a case), and the source's keywords outside ASCII
  are written as their UTF-8 bytes.  An exception is a value of \<open>py_error\<close>, and a function
  that can raise returns a sum whose \<open>Inl\<close> is the exception.  The leading underscore of the
  source's private names is dropped.
\<close>

datatype py_error = ZeroDivisionError | ValueError | TypeError | AttributeError | HttpError

subsection \<open>Characters and strings\<close>

text \<open>\<^verbatim>\<open>str.isspace\<close> on ASCII: tab, line feed, vertical tab, form feed, carriage return,
  the four separators \<open>0x1C\<close> to \<open>0x1F\<close>, and space.\<close>

definition is_space :: "char \<Rightarrow> bool" where
  "is_space c = (c \<in> set [CHR 0x09, CHR 0x0A, CHR 0x0B, CHR 0x0C, CHR 0x0D,
     CHR 0x1C, CHR 0x1D, CHR 0x1E, CHR 0x1F, CHR 0x20])"

definition digit :: "char \<Rightarrow> bool" where
  "digit c = (c \<in> set ''0123456789'')"

definition digit_val :: "char \<Rightarrow> int" where
  "digit_val c = (case map_of (zip ''0123456789'' [0, 1, 2, 3, 4, 5, 6, 7, 8, 9]) c of
     Some d \<Rightarrow> d | None \<Rightarrow> 0)"

definition lower_char :: "char \<Rightarrow> char" where
  "lower_char c = (case map_of (zip ''ABCDEFGHIJKLMNOPQRSTUVWXYZ''
     ''abcdefghijklmnopqrstuvwxyz'') c of Some l \<Rightarrow> l | None \<Rightarrow> c)"

text \<open>\<^verbatim>\<open>s.lower()\<close>, \<^verbatim>\<open>s.strip()\<close>, \<^verbatim>\<open>s.startswith(p)\<close> and \<^verbatim>\<open>k in s\<close>.\<close>

definition lower :: "string \<Rightarrow> string" where
  "lower s = map lower_char s"

definition strip :: "string \<Rightarrow> string" where
  "strip s = rev (dropWhile is_space (rev (dropWhile is_space s)))"

definition startswith :: "string \<Rightarrow> string \<Rightarrow> bool" where
  "startswith s p = (take (length p) s = p)"

fun contains :: "string \<Rightarrow> string \<Rightarrow> bool" where
  "contains [] k = (k = [])"
| "contains (x # xs) k = (startswith (x # xs) k \<or> contains xs k)"

text \<open>\<^verbatim>\<open>s.replace(old, new)\<close> for a non-empty \<open>old\<close>: the occurrences that do not overlap, from
  the left.\<close>

fun replace :: "string \<Rightarrow> string \<Rightarrow> string \<Rightarrow> string" where
  "replace old new [] = []"
| "replace old new (x # xs) =
     (if old \<noteq> [] \<and> startswith (x # xs) old
      then new @ replace old new (drop (length old - 1) xs)
      else x # replace old new xs)"

text \<open>\<^verbatim>\<open>str(n)\<close> of an integer.\<close>

function str_nat :: "nat \<Rightarrow> string" where
  "str_nat n =
     (if n < 10 then [''0123456789'' ! n]
      else str_nat (n div 10) @ [''0123456789'' ! (n mod 10)])"
  by pat_completeness auto
termination
  by (relation "measure (\<lambda>n. n)") auto

declare str_nat.simps [simp del]

definition str_int :: "int \<Rightarrow> string" where
  "str_int n = (if n < 0 then CHR ''-'' # str_nat (nat (- n)) else str_nat (nat n))"

text \<open>
  \<^verbatim>\<open>int(s)\<close> on a string: surrounding whitespace is stripped, then an optional sign and
  decimal digits, where single underscores may stand between digits.  Anything else raises
  \<^verbatim>\<open>ValueError\<close>, which is \<open>None\<close> here.  So does a text with more digits than
  \<^verbatim>\<open>sys.int_info.default_max_str_digits\<close>, the limit CPython puts on the conversion (from
  3.10.7 and 3.11 on); leading zeros count, the sign and the underscores do not.
\<close>

definition int_max_str_digits :: nat where
  "int_max_str_digits = 4300"

fun int_digits :: "string \<Rightarrow> bool \<Rightarrow> int \<Rightarrow> int option" where
  "int_digits [] after_digit acc = (if after_digit then Some acc else None)"
| "int_digits (x # xs) after_digit acc =
     (if digit x then int_digits xs True (acc * 10 + digit_val x)
      else if x = CHR ''_'' \<and> after_digit \<and> xs \<noteq> [] \<and> digit (hd xs)
        then int_digits xs False acc
      else None)"

definition py_int_str :: "string \<Rightarrow> int option" where
  "py_int_str s =
     (case strip s of
        [] \<Rightarrow> None
      | x # xs \<Rightarrow>
          if int_max_str_digits < length (filter digit (x # xs)) then None
          else if x = CHR ''-'' then map_option uminus (int_digits xs False 0)
          else if x = CHR ''+'' then int_digits xs False 0
          else int_digits (x # xs) False 0)"

text \<open>
  \<^verbatim>\<open>float(s)\<close> on a text of the form \<^verbatim>\<open>-?\d+(\.\d+)?\<close>, the only form the patterns of
  the source let through: the decimal number it denotes.
\<close>

definition float_of_decimal :: "string \<Rightarrow> rat option" where
  "float_of_decimal s =
     (let neg = startswith s ''-'';
          body = (if neg then tl s else s);
          ip = takeWhile digit body;
          rest = dropWhile digit body;
          fp = (if rest = [] then [] else tl rest)
      in if ip = [] \<or> (rest \<noteq> [] \<and> (hd rest \<noteq> CHR ''.'' \<or> fp = [] \<or> \<not> list_all digit fp))
         then None
         else case (int_digits ip False 0, if fp = [] then Some 0 else int_digits fp False 0) of
           (Some i, Some f) \<Rightarrow>
             Some ((if neg then - 1 else 1) * (of_int i + of_int f / 10 ^ length fp))
         | _ \<Rightarrow> None)"

text \<open>Python's \<^verbatim>\<open>int(x)\<close> on a finite float truncates towards zero.\<close>

definition int_of_float :: "rat \<Rightarrow> int" where
  "int_of_float q = (if 0 \<le> q then \<lfloor>q\<rfloor> else \<lceil>q\<rceil>)"

subsection \<open>Regular expressions\<close>

text \<open>
  The source finds its fields with Python's \<^verbatim>\<open>re\<close> module, a backtracking matcher.  A
  pattern is a value of \<open>rx\<close>.  \<open>rx_run r s c\<close> lists, in the order in which the
  backtracking matcher tries them, every way in which \<open>r\<close> matches a prefix of \<open>s\<close>: the
  rest of the text after the match, and the groups captured so far (the latest binding of
  a group first).  A greedy star tries one more iteration before it tries to stop, a lazy
  star the other way round; an iteration that consumes nothing is not repeated.  \<open>Eol\<close> is
  \<^verbatim>\<open>$\<close> without \<^verbatim>\<open>MULTILINE\<close>: the end of the text, or just before a line feed that ends it.
  The two tests on lengths hold for every result of the matcher; they are what makes the
  recursion terminate.
\<close>

datatype rx = Sym "char \<Rightarrow> bool" | Eps | Eol | Seq rx rx | Alt rx rx | Star rx | LazyStar rx
  | Grp nat rx

type_synonym caps = "(nat \<times> string) list"

function rx_run :: "rx \<Rightarrow> string \<Rightarrow> caps \<Rightarrow> (string \<times> caps) list" where
  "rx_run (Sym p) s c = (case s of [] \<Rightarrow> [] | x # xs \<Rightarrow> if p x then [(xs, c)] else [])"
| "rx_run Eps s c = [(s, c)]"
| "rx_run Eol s c = (if s = [] \<or> s = [CHR 0x0A] then [(s, c)] else [])"
| "rx_run (Seq a b) s c =
     concat (map (\<lambda>(s1, c1). if length s1 \<le> length s then rx_run b s1 c1 else [])
       (rx_run a s c))"
| "rx_run (Alt a b) s c = rx_run a s c @ rx_run b s c"
| "rx_run (Star a) s c =
     concat (map (\<lambda>(s1, c1). if length s1 < length s then rx_run (Star a) s1 c1 else [])
       (rx_run a s c)) @ [(s, c)]"
| "rx_run (LazyStar a) s c =
     (s, c) # concat (map (\<lambda>(s1, c1).
        if length s1 < length s then rx_run (LazyStar a) s1 c1 else []) (rx_run a s c))"
| "rx_run (Grp g a) s c =
     map (\<lambda>(s1, c1). (s1, (g, take (length s - length s1) s) # c1)) (rx_run a s c)"
  by pat_completeness auto
termination
  by (relation "(\<lambda>(r, s, c). length s) <*mlex*> measure (\<lambda>(r, s, c). size r)")
     (auto simp: wf_mlex mlex_prod_def)

declare rx_run.simps [simp del]

text \<open>
  The matcher followed by a continuation: what \<open>k\<close> makes of each result of \<open>r\<close>, in the
  order of the results.  It serves to compute the results of a pattern on a text of which
  only a part is known.
\<close>

definition rx_then :: "rx \<Rightarrow> string \<Rightarrow> caps \<Rightarrow> (string \<Rightarrow> caps \<Rightarrow> 'a list) \<Rightarrow> 'a list" where
  "rx_then r s c k = concat (map (\<lambda>(s1, c1). k s1 c1) (rx_run r s c))"

text \<open>The pieces the source's patterns are written with.\<close>

definition seqs :: "rx list \<Rightarrow> rx" where
  "seqs rs = foldr Seq rs Eps"

definition ch :: "char \<Rightarrow> rx" where
  "ch x = Sym (\<lambda>c. c = x)"

definition lit :: "string \<Rightarrow> rx" where
  "lit s = seqs (map ch s)"

text \<open>A literal under \<^verbatim>\<open>re.IGNORECASE\<close>.\<close>

definition lit_i :: "string \<Rightarrow> rx" where
  "lit_i s = seqs (map (\<lambda>x. Sym (\<lambda>c. lower_char c = lower_char x)) s)"

definition alts :: "rx list \<Rightarrow> rx" where
  "alts rs = (case rs of [] \<Rightarrow> Eps | _ \<Rightarrow> foldr Alt (butlast rs) (last rs))"

definition plus :: "rx \<Rightarrow> rx" where
  "plus r = Seq r (Star r)"

definition opt :: "rx \<Rightarrow> rx" where
  "opt r = Alt r Eps"

definition none_of :: "string \<Rightarrow> rx" where
  "none_of cs = Sym (\<lambda>c. c \<notin> set cs)"

definition one_of :: "string \<Rightarrow> rx" where
  "one_of cs = Sym (\<lambda>c. c \<in> set cs)"

text \<open>\<^verbatim>\<open>\s*\<close>, \<^verbatim>\<open>\d+\<close>, \<^verbatim>\<open>.\<close> without and with \<^verbatim>\<open>re.DOTALL\<close>.\<close>

definition ws :: rx where
  "ws = Star (Sym is_space)"

definition digits :: rx where
  "digits = plus (Sym digit)"

definition dot :: rx where
  "dot = Sym (\<lambda>c. c \<noteq> CHR 0x0A)"

definition dot_all :: rx where
  "dot_all = Sym (\<lambda>c. True)"

text \<open>
  A match object: the text before the match, the matched text (\<^verbatim>\<open>m.group(0)\<close>), the
  text after it (\<^verbatim>\<open>raw[m.end():]\<close>) and the groups.  \<^verbatim>\<open>re.match\<close> tries the start of the
  text only, \<^verbatim>\<open>re.search\<close> every position from the left.
\<close>

record rmatch =
  m_before :: string
  m_text :: string
  m_after :: string
  m_caps :: caps

definition group :: "rmatch \<Rightarrow> nat \<Rightarrow> string option" where
  "group m g = map_of (m_caps m) g"

text \<open>A group that took no part in the match is \<^verbatim>\<open>None\<close>: a string method called on it
  raises \<^verbatim>\<open>AttributeError\<close>, and \<^verbatim>\<open>int\<close> of it \<^verbatim>\<open>TypeError\<close>.\<close>

definition group_str :: "rmatch \<Rightarrow> nat \<Rightarrow> py_error + string" where
  "group_str m g = (case group m g of None \<Rightarrow> Inl AttributeError | Some w \<Rightarrow> Inr w)"

definition group_int :: "rmatch \<Rightarrow> nat \<Rightarrow> py_error + int" where
  "group_int m g =
     (case group m g of
        None \<Rightarrow> Inl TypeError
      | Some w \<Rightarrow> (case py_int_str w of None \<Rightarrow> Inl ValueError | Some n \<Rightarrow> Inr n))"

definition re_match_at :: "rx \<Rightarrow> string \<Rightarrow> string \<Rightarrow> rmatch option" where
  "re_match_at r pre s =
     (case rx_run r s [] of
        [] \<Rightarrow> None
      | (rest, c) # _ \<Rightarrow>
          Some \<lparr>m_before = pre, m_text = take (length s - length rest) s,
                m_after = rest, m_caps = c\<rparr>)"

definition re_match :: "rx \<Rightarrow> string \<Rightarrow> rmatch option" where
  "re_match r s = re_match_at r [] s"

fun re_search_from :: "rx \<Rightarrow> string \<Rightarrow> string \<Rightarrow> rmatch option" where
  "re_search_from r pre [] = re_match_at r pre []"
| "re_search_from r pre (x # xs) =
     (case re_match_at r pre (x # xs) of
        Some m \<Rightarrow> Some m
      | None \<Rightarrow> re_search_from r (pre @ [x]) xs)"

definition re_search :: "rx \<Rightarrow> string \<Rightarrow> rmatch option" where
  "re_search r s = re_search_from r [] s"

text \<open>
  \<^verbatim>\<open>re.findall\<close> for a pattern without groups and \<^verbatim>\<open>re.sub\<close>: the matches that do not
  overlap, from the left.  After a match that consumed nothing the scan moves on by one
  character.
\<close>

function re_findall :: "rx \<Rightarrow> string \<Rightarrow> string list" where
  "re_findall r s =
     (case rx_run r s [] of
        [] \<Rightarrow> (case s of [] \<Rightarrow> [] | _ # xs \<Rightarrow> re_findall r xs)
      | (rest, _) # _ \<Rightarrow>
          if length rest < length s
          then take (length s - length rest) s # re_findall r rest
          else [] # (case s of [] \<Rightarrow> [] | _ # xs \<Rightarrow> re_findall r xs))"
  by pat_completeness auto
termination
  by (relation "measure (\<lambda>(r, s). length s)") auto

declare re_findall.simps [simp del]

function re_sub :: "rx \<Rightarrow> string \<Rightarrow> string \<Rightarrow> string" where
  "re_sub r repl s =
     (case rx_run r s [] of
        [] \<Rightarrow> (case s of [] \<Rightarrow> [] | x # xs \<Rightarrow> x # re_sub r repl xs)
      | (rest, _) # _ \<Rightarrow>
          if length rest < length s then repl @ re_sub r repl rest
          else repl @ (case s of [] \<Rightarrow> [] | x # xs \<Rightarrow> x # re_sub r repl xs))"
  by pat_completeness auto
termination
  by (relation "measure (\<lambda>(r, repl, s). length s)") auto

declare re_sub.simps [simp del]

text \<open>
  \<^verbatim>\<open>re.sub\<close> with a pattern that starts with \<^verbatim>\<open>^\<close> (without \<^verbatim>\<open>MULTILINE\<close>) and cannot
  match the empty text: only a match at the start of the text exists.
\<close>

definition re_sub_at_start :: "rx \<Rightarrow> string \<Rightarrow> string \<Rightarrow> string" where
  "re_sub_at_start r repl s =
     (case rx_run r s [] of [] \<Rightarrow> s | (rest, _) # _ \<Rightarrow> repl @ rest)"

subsection \<open>JSON values and dictionaries\<close>

text \<open>
  What \<^verbatim>\<open>json.loads\<close> returns and what the planner dictionary holds.  A float that is not
  finite is \<open>JNonFinite\<close>.  A \<^verbatim>\<open>dict\<close> is an association list in insertion order.
\<close>

datatype jval = JNull | JBool bool | JInt int | JFloat rat | JNonFinite | JStr string
  | JList "jval list" | JDict "(string \<times> jval) list"

type_synonym pydict = "(string \<times> jval) list"

text \<open>\<^verbatim>\<open>d.get(k)\<close>, \<^verbatim>\<open>d.get(k, default)\<close> and \<^verbatim>\<open>d[k] = v\<close>.\<close>

definition dget :: "pydict \<Rightarrow> string \<Rightarrow> jval" where
  "dget d k = (case map_of d k of Some v \<Rightarrow> v | None \<Rightarrow> JNull)"

definition dget_or :: "pydict \<Rightarrow> string \<Rightarrow> jval \<Rightarrow> jval" where
  "dget_or d k dflt = (case map_of d k of Some v \<Rightarrow> v | None \<Rightarrow> dflt)"

definition dset :: "pydict \<Rightarrow> string \<Rightarrow> jval \<Rightarrow> pydict" where
  "dset d k v =
     (if k \<in> fst ` set d then map (\<lambda>(k', v'). if k' = k then (k', v) else (k', v')) d
      else d @ [(k, v)])"

text \<open>\<^verbatim>\<open>int(v)\<close> on any value; \<open>None\<close> stands for the \<^verbatim>\<open>TypeError\<close>, \<^verbatim>\<open>ValueError\<close> or
  \<^verbatim>\<open>OverflowError\<close> it raises otherwise.\<close>

definition py_int :: "jval \<Rightarrow> int option" where
  "py_int v =
     (case v of
        JInt n \<Rightarrow> Some n
      | JBool b \<Rightarrow> Some (if b then 1 else 0)
      | JFloat q \<Rightarrow> Some (int_of_float q)
      | JStr s \<Rightarrow> py_int_str s
      | _ \<Rightarrow> None)"

text \<open>
  \<^verbatim>\<open>str(v)\<close>: the string itself for a string.  The text Python prints for any other
  value is the parameter \<open>repr\<close>.
\<close>

definition py_str :: "(jval \<Rightarrow> string) \<Rightarrow> jval \<Rightarrow> string" where
  "py_str repr v = (case v of JStr s \<Rightarrow> s | _ \<Rightarrow> repr v)"

section \<open>Controller: grid partitioner and region mapper\<close>

text \<open>\<^verbatim>\<open>_clamp(v, lo, hi) = max(lo, min(hi, v))\<close>\<close>

definition clamp :: "int \<Rightarrow> int \<Rightarrow> int \<Rightarrow> int" where
  "clamp v lo hi = max lo (min hi v)"

text \<open>
  \<^verbatim>\<open>_safe_int(value, default)\<close>: \<^verbatim>\<open>int(value)\<close> (which strips a string itself), and the
  default when it raises.
\<close>

definition safe_int :: "jval \<Rightarrow> int \<Rightarrow> int" where
  "safe_int v dflt = (case py_int v of Some n \<Rightarrow> n | None \<Rightarrow> dflt)"

subsection \<open>Grid partitioner\<close>

text \<open>
  A grid is the tuple \<open>(rows, cols, cells, cell_aspect, log_error)\<close>.
  \<^verbatim>\<open>abs(math.log(max(1e-6, cell_aspect)))\<close> is \<open>log_error_of\<close>.
\<close>

type_synonym grid = "int \<times> int \<times> int \<times> real \<times> real"

definition log_error_of :: "real \<Rightarrow> real" where
  "log_error_of aspect = \<bar>ln (max (1 / 1000000) aspect)\<bar>"

text \<open>
  The candidates, in the order of the two nested loops over
  \<^verbatim>\<open>range(min_segments, max_segments + 1)\<close>; a pair whose cell is at most one pixel wide or
  high is skipped.
\<close>

definition grid_candidates :: "int \<Rightarrow> int \<Rightarrow> int \<Rightarrow> int \<Rightarrow> grid list" where
  "grid_candidates width height min_segments max_segments =
     concat (map (\<lambda>rows. concat (map (\<lambda>cols.
       let cell_w = real_of_int width / real_of_int cols;
           cell_h = real_of_int height / real_of_int rows
       in if cell_w \<le> 1 \<or> cell_h \<le> 1 then []
          else [(rows, cols, rows * cols, cell_w / cell_h, log_error_of (cell_w / cell_h))])
       [min_segments..max_segments])) [min_segments..max_segments])"

text \<open>
  Python compares the key tuples lexicographically, and \<^verbatim>\<open>min(xs, key=k)\<close> keeps the first
  element whose key is least.
\<close>

definition lex_less :: "'a::linorder \<times> 'b::linorder \<Rightarrow> 'a \<times> 'b \<Rightarrow> bool" where
  "lex_less p q = (fst p < fst q \<or> (fst p = fst q \<and> snd p < snd q))"

fun min_by :: "('a \<Rightarrow> 'k) \<Rightarrow> ('k \<Rightarrow> 'k \<Rightarrow> bool) \<Rightarrow> 'a \<Rightarrow> 'a list \<Rightarrow> 'a" where
  "min_by key lt best [] = best"
| "min_by key lt best (x # xs) =
     min_by key lt (if lt (key x) (key best) then x else best) xs"

text \<open>
  \<^verbatim>\<open>_choose_adaptive_grid\<close>.  The float division \<^verbatim>\<open>width / cols\<close> raises when the range of
  segments holds 0.
\<close>

definition choose_adaptive_grid ::
  "int \<Rightarrow> int \<Rightarrow> int \<Rightarrow> int \<Rightarrow> real \<Rightarrow> py_error + grid" where
  "choose_adaptive_grid width height min_segments max_segments target_log_error =
     (if min_segments \<le> 0 \<and> 0 \<le> max_segments then Inl ZeroDivisionError
      else
        case grid_candidates width height min_segments max_segments of
          [] \<Rightarrow>
            let aspect = real_of_int width / max 1 (real_of_int height)
            in Inr (3, 3, 9, aspect, log_error_of aspect)
        | c # cs \<Rightarrow>
            (case filter (\<lambda>(rows, cols, cells, cell_aspect, log_error).
                     log_error \<le> target_log_error) (c # cs) of
               n # ns \<Rightarrow>
                 Inr (min_by (\<lambda>(rows, cols, cells, cell_aspect, log_error). (cells, log_error))
                        lex_less n ns)
             | [] \<Rightarrow>
                 Inr (min_by (\<lambda>(rows, cols, cells, cell_aspect, log_error). (log_error, cells))
                        lex_less c cs)))"

text \<open>The cell width \<^verbatim>\<open>width / cols\<close> and the cell height \<^verbatim>\<open>height / rows\<close> of a grid.\<close>

definition cell_width :: "int \<Rightarrow> grid \<Rightarrow> real" where
  "cell_width width g = (case g of (rows, cols, rest) \<Rightarrow> real_of_int width / real_of_int cols)"

definition cell_height :: "int \<Rightarrow> grid \<Rightarrow> real" where
  "cell_height height g = (case g of (rows, cols, rest) \<Rightarrow> real_of_int height / real_of_int rows)"

definition grid_rows :: "grid \<Rightarrow> int" where
  "grid_rows g = fst g"

definition grid_cols :: "grid \<Rightarrow> int" where
  "grid_cols g = fst (snd g)"

subsection \<open>Region mapper\<close>

text \<open>
  \<^verbatim>\<open>_region_box\<close>: the pixel box \<open>(left, top, right, bottom)\<close> of a 1-based row-major
  region.  The divisions by \<open>cols\<close> and \<open>rows\<close> raise \<^verbatim>\<open>ZeroDivisionError\<close> in Python.
\<close>

definition region_box ::
  "int \<Rightarrow> int \<Rightarrow> int \<Rightarrow> int \<Rightarrow> int \<Rightarrow> py_error + (int \<times> int \<times> int \<times> int)" where
  "region_box region rows cols width height =
     (if cols = 0 \<or> rows = 0 then Inl ZeroDivisionError
      else
        let r = clamp region 1 (rows * cols) - 1;
            row = r div cols;
            col = r mod cols;
            cell_w = width div cols;
            cell_h = height div rows;
            left = col * cell_w;
            ytop = row * cell_h;
            right = (if col = cols - 1 then width else (col + 1) * cell_w);
            bottom = (if row = rows - 1 then height else (row + 1) * cell_h)
        in Inr (left, ytop, right, bottom))"

text \<open>\<^verbatim>\<open>_region_row_col\<close>: zero-based row and column of a region.\<close>

definition region_row_col :: "int \<Rightarrow> int \<Rightarrow> int \<Rightarrow> py_error + (int \<times> int)" where
  "region_row_col region rows cols =
     (if cols = 0 then Inl ZeroDivisionError
      else let r = clamp region 1 (rows * cols) - 1 in Inr (r div cols, r mod cols))"

text \<open>
  \<^verbatim>\<open>_parse_regions_value\<close>: the integers of a list (an element \<^verbatim>\<open>int\<close> rejects is
  skipped), or the runs of digits of a string; the empty list for any other value.  The
  \<^verbatim>\<open>int(n)\<close> on a run of digits is not guarded in the source.
\<close>

fun collect :: "('e + 'a) list \<Rightarrow> 'e + 'a list" where
  "collect [] = Inr []"
| "collect (x # xs) =
     (case x of
        Inl e \<Rightarrow> Inl e
      | Inr v \<Rightarrow> (case collect xs of Inl e \<Rightarrow> Inl e | Inr vs \<Rightarrow> Inr (v # vs)))"

definition parse_regions_value :: "jval \<Rightarrow> py_error + int list" where
  "parse_regions_value v =
     (case v of
        JList vs \<Rightarrow> Inr (concat (map (\<lambda>x. case py_int x of Some n \<Rightarrow> [n] | None \<Rightarrow> []) vs))
      | JStr s \<Rightarrow>
          collect (map (\<lambda>n. case py_int_str n of Some k \<Rightarrow> Inr k | None \<Rightarrow> Inl ValueError)
            (re_findall digits s))
      | _ \<Rightarrow> Inr [])"

text \<open>\<^verbatim>\<open>_looks_like_horizontal_span_target\<close>; the last four keywords are the UTF-8 bytes of
  the source's Chinese words for input, search, message and chat.\<close>

definition span_keywords :: "string list" where
  "span_keywords =
     [''input'', ''field'', ''search'', ''bar'', ''message'', ''textbox'', ''text box'',
      [CHR 0xE8, CHR 0xBE, CHR 0x93, CHR 0xE5, CHR 0x85, CHR 0xA5],
      [CHR 0xE6, CHR 0x90, CHR 0x9C, CHR 0xE7, CHR 0xB4, CHR 0xA2],
      [CHR 0xE6, CHR 0xB6, CHR 0x88, CHR 0xE6, CHR 0x81, CHR 0xAF],
      [CHR 0xE8, CHR 0x81, CHR 0x8A, CHR 0xE5, CHR 0xA4, CHR 0xA9]]"

definition looks_like_horizontal_span_target :: "string \<Rightarrow> bool" where
  "looks_like_horizontal_span_target target =
     (let t = lower target in list_ex (\<lambda>k. contains t k) span_keywords)"

text \<open>\<^verbatim>\<open>min\<close> and \<^verbatim>\<open>max\<close> of a sequence raise \<^verbatim>\<open>ValueError\<close> on the empty one.\<close>

definition py_min :: "int list \<Rightarrow> py_error + int" where
  "py_min xs = (case xs of [] \<Rightarrow> Inl ValueError | x # r \<Rightarrow> Inr (fold min r x))"

definition py_max :: "int list \<Rightarrow> py_error + int" where
  "py_max xs = (case xs of [] \<Rightarrow> Inl ValueError | x # r \<Rightarrow> Inr (fold max r x))"

text \<open>
  \<^verbatim>\<open>_rect_cover_from_regions\<close> returns the normalized input regions, the regions of the
  covering rectangle, its pixel box \<open>(left, top, right, bottom)\<close> and its range
  \<open>(min_row, max_row, min_col, max_col)\<close>.  The steps are those of the source, in its
  order: the raw regions, the single region appended, the sorted set of the clamped
  positive ones, the central region when that is empty, the expansion of a single region
  to its row for a bar-like target, the rows and columns, the rectangle, the box.
\<close>

type_synonym cover = "int list \<times> int list \<times> (int \<times> int \<times> int \<times> int) \<times> (int \<times> int \<times> int \<times> int)"

definition normalize_regions :: "int list \<Rightarrow> int \<Rightarrow> int \<Rightarrow> int list" where
  "normalize_regions regions_raw rows cols =
     (let cells = rows * cols;
          normalized = sort (remdups (map (\<lambda>r. clamp r 1 cells) (filter (\<lambda>r. 0 < r) regions_raw)))
      in if normalized = [] then [clamp ((rows div 2) * cols + (cols div 2) + 1) 1 cells]
         else normalized)"

definition rect_cover_from_regions ::
  "(jval \<Rightarrow> string) \<Rightarrow> pydict \<Rightarrow> int \<Rightarrow> int \<Rightarrow> int \<Rightarrow> int \<Rightarrow> py_error + cover" where
  "rect_cover_from_regions repr planner rows cols width height =
     (case parse_regions_value (dget planner ''regions'') of
        Inl e \<Rightarrow> Inl e
      | Inr parsed \<Rightarrow>
     let single = safe_int (dget_or planner ''region'' (JInt 0)) 0;
         regions_raw = (if 0 < single then parsed @ [single] else parsed);
         normalized0 = normalize_regions regions_raw rows cols
     in
     case (if length normalized0 = 1 \<and>
              looks_like_horizontal_span_target
                (py_str repr (dget_or planner ''target'' (JStr '''')))
           then (case region_row_col (hd normalized0) rows cols of
                   Inl e \<Rightarrow> Inl e
                 | Inr (row, col) \<Rightarrow> Inr (map (\<lambda>c. row * cols + c + 1) [0..cols - 1]))
           else Inr normalized0) of
        Inl e \<Rightarrow> Inl e
      | Inr normalized \<Rightarrow>
     case collect (map (\<lambda>r. region_row_col r rows cols) normalized) of
        Inl e \<Rightarrow> Inl e
      | Inr row_cols \<Rightarrow>
     case (py_min (map fst row_cols), py_max (map fst row_cols),
           py_min (map snd row_cols), py_max (map snd row_cols)) of
        (Inr min_row, Inr max_row, Inr min_col, Inr max_col) \<Rightarrow>
          if rows = 0 then Inl ZeroDivisionError
          else
            let rect_regions = concat (map (\<lambda>rr. map (\<lambda>cc. rr * cols + cc + 1)
                                 [min_col..max_col]) [min_row..max_row]);
                cell_w = width div cols;
                cell_h = height div rows;
                left = min_col * cell_w;
                ytop = min_row * cell_h;
                right = (if max_col = cols - 1 then width else (max_col + 1) * cell_w);
                bottom = (if max_row = rows - 1 then height else (max_row + 1) * cell_h)
            in Inr (normalized, rect_regions, (left, ytop, right, bottom),
                    (min_row, max_row, min_col, max_col))
      | _ \<Rightarrow> Inl ValueError)"

text \<open>The parts of a cover.\<close>

definition cover_regions :: "cover \<Rightarrow> int list" where
  "cover_regions cv = fst cv"

definition cover_box :: "cover \<Rightarrow> int \<times> int \<times> int \<times> int" where
  "cover_box cv = fst (snd (snd cv))"

definition cover_range :: "cover \<Rightarrow> int \<times> int \<times> int \<times> int" where
  "cover_range cv = snd (snd (snd cv))"

text \<open>
  \<^verbatim>\<open>_point_from_region_ratio\<close>: the ratios are clamped into \<open>[0, 1]\<close>, then
  \<^verbatim>\<open>x = int(left + xr * max(1, right - left - 1))\<close> and likewise for \<open>y\<close>.
\<close>

definition point_from_region_ratio ::
  "int \<Rightarrow> int \<Rightarrow> int \<Rightarrow> int \<Rightarrow> int \<Rightarrow> rat \<Rightarrow> rat \<Rightarrow> py_error + (int \<times> int)" where
  "point_from_region_ratio region rows cols width height xr yr =
     (case region_box region rows cols width height of
        Inl e \<Rightarrow> Inl e
      | Inr (left, ytop, right, bottom) \<Rightarrow>
          let xr' = max 0 (min 1 xr);
              yr' = max 0 (min 1 yr);
              x = int_of_float (of_int left + xr' * of_int (max 1 (right - left - 1)));
              y = int_of_float (of_int ytop + yr' * of_int (max 1 (bottom - ytop - 1)))
          in Inr (x, y))"

text \<open>A point lies inside a pixel box when \<open>left \<le> x < right\<close> and \<open>top \<le> y < bottom\<close>.\<close>

definition in_box :: "int \<times> int \<Rightarrow> int \<times> int \<times> int \<times> int \<Rightarrow> bool" where
  "in_box p b = (case p of (x, y) \<Rightarrow> case b of (left, ytop, right, bottom) \<Rightarrow>
     left \<le> x \<and> x < right \<and> ytop \<le> y \<and> y < bottom)"

section \<open>Controller: planner text extraction\<close>

text \<open>
  \<^verbatim>\<open>_extract_json\<close>.  The JSON parser \<^verbatim>\<open>json.loads\<close> is the parameter \<open>loads\<close>; \<open>None\<close>
  stands for the exception it raises on a text that is not JSON.  The text is stripped, a
  Markdown fence around it is removed (\<^verbatim>\<open>^```[a-zA-Z0-9_-]*\n?\<close> and \<^verbatim>\<open>\n?```$\<close>), and
  the result is parsed; when that gives no dictionary, the span from the first \<^verbatim>\<open>{\<close> to
  the last \<^verbatim>\<open>}\<close> of the raw text (\<^verbatim>\<open>\{.*\}\<close> with \<^verbatim>\<open>re.DOTALL\<close>) is parsed instead.
\<close>

definition fence_word_char :: "char \<Rightarrow> bool" where
  "fence_word_char c =
     (c \<in> set ''abcdefghijklmnopqrstuvwxyzABCDEFGHIJKLMNOPQRSTUVWXYZ0123456789_-'')"

definition rx_fence_open :: rx where
  "rx_fence_open = seqs [lit ''```'', Star (Sym fence_word_char), opt (ch CHR 0x0A)]"

definition rx_fence_close :: rx where
  "rx_fence_close = seqs [opt (ch CHR 0x0A), lit ''```'', Eol]"

definition rx_braces :: rx where
  "rx_braces = seqs [ch CHR ''{'', Star dot_all, ch CHR ''}'']"

definition as_dict :: "jval option \<Rightarrow> pydict option" where
  "as_dict v = (case v of Some (JDict d) \<Rightarrow> Some d | _ \<Rightarrow> None)"

definition extract_json :: "(string \<Rightarrow> jval option) \<Rightarrow> string \<Rightarrow> pydict option" where
  "extract_json loads raw =
     (let stripped = strip raw;
          txt = (if startswith stripped ''```''
                 then re_sub rx_fence_close [] (re_sub_at_start rx_fence_open [] stripped)
                 else stripped)
      in case as_dict (loads txt) of
           Some d \<Rightarrow> Some d
         | None \<Rightarrow>
             (case re_search rx_braces raw of
                None \<Rightarrow> None
              | Some m \<Rightarrow> as_dict (loads (m_text m))))"

text \<open>
  \<^verbatim>\<open>_extract_planner_fallback\<close> searches the raw text for one field after the other, each
  with a pattern of the form \<^verbatim>\<open>"key"\s*:\s*value\<close> under \<^verbatim>\<open>re.IGNORECASE\<close>, and stores
  what the group of the value holds.
\<close>

definition rx_field :: "string \<Rightarrow> rx \<Rightarrow> rx" where
  "rx_field key val = seqs [ch CHR 0x22, lit_i key, ch CHR 0x22, ws, ch CHR '':'', ws, val]"

text \<open>The values: \<^verbatim>\<open>"([^"]+)"\<close>, \<^verbatim>\<open>"([^"]*)"\<close>, \<^verbatim>\<open>(\d+)\<close>, \<^verbatim>\<open>(-?\d+)\<close>,
  \<^verbatim>\<open>(-?\d+(?:\.\d+)?)\<close>, \<^verbatim>\<open>\[([^\]]+)\]\<close>, \<^verbatim>\<open>"(up|down|left|right)"\<close> and
  \<^verbatim>\<open>(true|false)\<close>.\<close>

definition rx_quoted_some :: rx where
  "rx_quoted_some = seqs [ch CHR 0x22, Grp 1 (plus (none_of [CHR 0x22])), ch CHR 0x22]"

definition rx_quoted_any :: rx where
  "rx_quoted_any = seqs [ch CHR 0x22, Grp 1 (Star (none_of [CHR 0x22])), ch CHR 0x22]"

definition rx_number :: rx where
  "rx_number = Grp 1 digits"

definition rx_signed_number :: rx where
  "rx_signed_number = Grp 1 (Seq (opt (ch CHR ''-'')) digits)"

definition rx_decimal :: rx where
  "rx_decimal = Grp 1 (seqs [opt (ch CHR ''-''), digits, opt (Seq (ch CHR ''.'') digits)])"

definition rx_array :: rx where
  "rx_array = seqs [ch CHR ''['', Grp 1 (plus (none_of '']'')), ch CHR '']'']"

definition rx_direction :: rx where
  "rx_direction =
     seqs [ch CHR 0x22,
           Grp 1 (alts [lit_i ''up'', lit_i ''down'', lit_i ''left'', lit_i ''right'']),
           ch CHR 0x22]"

definition rx_bool :: rx where
  "rx_bool = Grp 1 (Alt (lit_i ''true'') (lit_i ''false''))"

text \<open>One field: when the pattern is found, the value made from its group is stored under
  the key.  The conversion may raise, and it may decide to store nothing.\<close>

definition field ::
  "string \<Rightarrow> rx \<Rightarrow> (rmatch \<Rightarrow> py_error + jval option) \<Rightarrow> string \<Rightarrow> pydict \<Rightarrow>
   py_error + pydict" where
  "field key val conv raw out =
     (case re_search (rx_field key val) raw of
        None \<Rightarrow> Inr out
      | Some m \<Rightarrow>
          (case conv m of
             Inl e \<Rightarrow> Inl e
           | Inr None \<Rightarrow> Inr out
           | Inr (Some v) \<Rightarrow> Inr (dset out key v)))"

definition conv_str :: "(string \<Rightarrow> string) \<Rightarrow> rmatch \<Rightarrow> py_error + jval option" where
  "conv_str f m = (case group_str m 1 of Inl e \<Rightarrow> Inl e | Inr g \<Rightarrow> Inr (Some (JStr (f g))))"

definition conv_int :: "rmatch \<Rightarrow> py_error + jval option" where
  "conv_int m = (case group_int m 1 of Inl e \<Rightarrow> Inl e | Inr n \<Rightarrow> Inr (Some (JInt n)))"

definition conv_float :: "rmatch \<Rightarrow> py_error + jval option" where
  "conv_float m =
     (case group_str m 1 of
        Inl e \<Rightarrow> Inl e
      | Inr g \<Rightarrow>
          (case float_of_decimal g of
             None \<Rightarrow> Inl ValueError
           | Some q \<Rightarrow> Inr (Some (JFloat q))))"

definition conv_regions :: "rmatch \<Rightarrow> py_error + jval option" where
  "conv_regions m =
     (case group_str m 1 of
        Inl e \<Rightarrow> Inl e
      | Inr g \<Rightarrow>
          (case collect (map (\<lambda>n. case py_int_str n of Some k \<Rightarrow> Inr (JInt k)
                                    | None \<Rightarrow> Inl ValueError)
                          (re_findall digits g)) of
             Inl e \<Rightarrow> Inl e
           | Inr nums \<Rightarrow> Inr (if nums = [] then None else Some (JList nums))))"

definition conv_bool :: "rmatch \<Rightarrow> py_error + jval option" where
  "conv_bool m =
     (case group_str m 1 of Inl e \<Rightarrow> Inl e | Inr g \<Rightarrow> Inr (Some (JBool (lower g = ''true''))))"

text \<open>The fields in the order of the source.\<close>

definition fallback_fields :: "(string \<Rightarrow> pydict \<Rightarrow> py_error + pydict) list" where
  "fallback_fields =
     [field ''action'' rx_quoted_some (conv_str (\<lambda>g. lower (strip g))),
      field ''target'' rx_quoted_any (conv_str strip),
      field ''region'' rx_number conv_int,
      field ''regions'' rx_array conv_regions,
      field ''text'' rx_quoted_any (conv_str (\<lambda>g. g)),
      field ''enterAction'' rx_quoted_some (conv_str (\<lambda>g. lower (strip g))),
      field ''waitSec'' rx_number conv_int,
      field ''finishMessage'' rx_quoted_any (conv_str (\<lambda>g. g)),
      field ''swipeTarget'' rx_quoted_any (conv_str strip),
      field ''direction'' rx_direction (conv_str lower),
      field ''durationMs'' rx_number conv_int,
      field ''startRegion'' rx_number conv_int,
      field ''endRegion'' rx_number conv_int,
      field ''startX'' rx_signed_number conv_int,
      field ''startY'' rx_signed_number conv_int,
      field ''endX'' rx_signed_number conv_int,
      field ''endY'' rx_signed_number conv_int,
      field ''startXRatio'' rx_decimal conv_float,
      field ''startYRatio'' rx_decimal conv_float,
      field ''endXRatio'' rx_decimal conv_float,
      field ''endYRatio'' rx_decimal conv_float,
      field ''pressEnter'' rx_bool conv_bool]"

fun run_fields ::
  "(string \<Rightarrow> pydict \<Rightarrow> py_error + pydict) list \<Rightarrow> string \<Rightarrow> pydict \<Rightarrow> py_error + pydict" where
  "run_fields [] raw out = Inr out"
| "run_fields (f # fs) raw out =
     (case f raw out of Inl e \<Rightarrow> Inl e | Inr out' \<Rightarrow> run_fields fs raw out')"

definition extract_planner_fallback :: "string \<Rightarrow> py_error + pydict" where
  "extract_planner_fallback raw = run_fields fallback_fields raw []"

text \<open>
  \<^verbatim>\<open>_has_unclosed_regions_array\<close>: the text opens a \<^verbatim>\<open>"regions"\<close> array
  (\<^verbatim>\<open>"regions"\s*:\s*\[\<close>) and no \<^verbatim>\<open>]\<close> follows.
\<close>

definition has_unclosed_regions_array :: "string \<Rightarrow> bool" where
  "has_unclosed_regions_array raw =
     (case re_search (rx_field ''regions'' (ch CHR ''['')) raw of
        None \<Rightarrow> False
      | Some m \<Rightarrow> CHR '']'' \<notin> set (m_after m))"

text \<open>
  The planner dictionary of a step of \<^verbatim>\<open>run_controller\<close>,
  \<^verbatim>\<open>_extract_json(planner_raw) or _extract_planner_fallback(planner_raw)\<close> (an empty
  dictionary counts as false), and the test that makes a tap ask the model again for the
  regions: the answer was cut off (\<^verbatim>\<open>finish_reason == "length"\<close>) or the regions array is
  not closed, and at most one region was parsed.
\<close>

definition planner_of :: "(string \<Rightarrow> jval option) \<Rightarrow> string \<Rightarrow> py_error + pydict" where
  "planner_of loads planner_raw =
     (case extract_json loads planner_raw of
        Some d \<Rightarrow> if d = [] then extract_planner_fallback planner_raw else Inr d
      | None \<Rightarrow> extract_planner_fallback planner_raw)"

definition need_regions_repair :: "string option \<Rightarrow> string \<Rightarrow> pydict \<Rightarrow> py_error + bool" where
  "need_regions_repair last_finish_reason planner_raw planner =
     (case parse_regions_value (dget planner ''regions'') of
        Inl e \<Rightarrow> Inl e
      | Inr parsed_regions \<Rightarrow>
          Inr ((last_finish_reason = Some ''length'' \<or> has_unclosed_regions_array planner_raw)
               \<and> length parsed_regions \<le> 1))"


section \<open>Agent: answer parser\<close>

text \<open>
  The definitions of this section embed \<^verbatim>\<open>tools/actl_agent.py\<close>.  An action is the
  dictionary \<^verbatim>\<open>parse_action\<close> returns; its \<^verbatim>\<open>"kind"\<close> is \<open>kind_of\<close>.
\<close>

datatype action =
    Tap int int
  | Swipe int int int int int
  | Type string "string option"
  | Wait int
  | Finish string
  | Invalid string string

definition kind_of :: "action \<Rightarrow> string" where
  "kind_of a =
     (case a of
        Tap x y \<Rightarrow> ''tap''
      | Swipe sx sy ex ey d \<Rightarrow> ''swipe''
      | Type t e \<Rightarrow> ''type''
      | Wait s \<Rightarrow> ''wait''
      | Finish m \<Rightarrow> ''finish''
      | Invalid r why \<Rightarrow> ''invalid'')"

text \<open>
  \<^verbatim>\<open>_extract_answer\<close>: the text between the answer tags
  (\<^verbatim>\<open><answer>\s*(.*?)\s*</answer>\<close>, ignoring case, \<^verbatim>\<open>.\<close> matching line feeds), else the
  first \<^verbatim>\<open>finish(...)\<close> or \<^verbatim>\<open>do(...)\<close> span, else the whole text; stripped.
\<close>

definition rx_answer :: rx where
  "rx_answer = seqs [lit_i ''<answer>'', ws, Grp 1 (LazyStar dot_all), ws, lit_i ''</answer>'']"

definition rx_call :: rx where
  "rx_call = Grp 1 (Alt (seqs [lit ''finish('', Star (none_of '')''), ch CHR '')''])
                        (seqs [lit ''do('', Star (none_of '')''), ch CHR '')'']))"

definition extract_answer :: "string \<Rightarrow> py_error + string" where
  "extract_answer raw =
     (case re_search rx_answer raw of
        Some m \<Rightarrow> (case group_str m 1 of Inl e \<Rightarrow> Inl e | Inr g \<Rightarrow> Inr (strip g))
      | None \<Rightarrow>
          (case re_search rx_call raw of
             Some m \<Rightarrow> (case group_str m 1 of Inl e \<Rightarrow> Inl e | Inr g \<Rightarrow> Inr (strip g))
           | None \<Rightarrow> Inr (strip raw)))"

text \<open>
  \<^verbatim>\<open>_parse_quoted\<close>: \<^verbatim>\<open>key\s*=\s*"((?:[^"\\]|\\\\.)*)"\<close>, where the class excludes the quote
  and the backslash and the second alternative is two backslashes and any character but a
  line feed.  In the value, two backslashes become one, then a backslash and a quote become
  a quote.
\<close>

definition rx_quoted :: "string \<Rightarrow> rx" where
  "rx_quoted key =
     seqs [lit key, ws, ch CHR ''='', ws, ch CHR 0x22,
           Grp 1 (Star (Alt (none_of [CHR 0x22, CHR 0x5C])
                            (seqs [ch CHR 0x5C, ch CHR 0x5C, dot]))),
           ch CHR 0x22]"

definition parse_quoted :: "string \<Rightarrow> string \<Rightarrow> py_error + string option" where
  "parse_quoted arg_text key =
     (case re_search (rx_quoted key) arg_text of
        None \<Rightarrow> Inr None
      | Some m \<Rightarrow>
          (case group_str m 1 of
             Inl e \<Rightarrow> Inl e
           | Inr v \<Rightarrow>
               Inr (Some (replace [CHR 0x5C, CHR 0x22] [CHR 0x22]
                            (replace [CHR 0x5C, CHR 0x5C] [CHR 0x5C] v)))))"

text \<open>\<^verbatim>\<open>_parse_pair\<close>:
  \<^verbatim>\<open>key\s*=\s*(?:"|')?\[\s*(-?\d+)\s*,\s*(-?\d+)\s*\](?:"|')?\<close>, and \<^verbatim>\<open>int\<close> of both groups.\<close>

definition rx_signed :: rx where
  "rx_signed = Seq (opt (ch CHR ''-'')) digits"

definition rx_pair :: "string \<Rightarrow> rx" where
  "rx_pair key =
     seqs [lit key, ws, ch CHR ''='', ws, opt (Alt (ch CHR 0x22) (ch CHR 0x27)),
           ch CHR ''['', ws, Grp 1 rx_signed, ws, ch CHR '','', ws, Grp 2 rx_signed, ws,
           ch CHR '']'', opt (Alt (ch CHR 0x22) (ch CHR 0x27))]"

definition parse_pair :: "string \<Rightarrow> string \<Rightarrow> py_error + (int \<times> int) option" where
  "parse_pair arg_text key =
     (case re_search (rx_pair key) arg_text of
        None \<Rightarrow> Inr None
      | Some m \<Rightarrow>
          (case group_int m 1 of
             Inl e \<Rightarrow> Inl e
           | Inr a \<Rightarrow> (case group_int m 2 of Inl e \<Rightarrow> Inl e | Inr b \<Rightarrow> Inr (Some (a, b)))))"

text \<open>\<^verbatim>\<open>_parse_int\<close>: \<^verbatim>\<open>key\s*=\s*(-?\d+)\<close>.\<close>

definition rx_int :: "string \<Rightarrow> rx" where
  "rx_int key = seqs [lit key, ws, ch CHR ''='', ws, Grp 1 rx_signed]"

definition parse_int :: "string \<Rightarrow> string \<Rightarrow> py_error + int option" where
  "parse_int arg_text key =
     (case re_search (rx_int key) arg_text of
        None \<Rightarrow> Inr None
      | Some m \<Rightarrow> (case group_int m 1 of Inl e \<Rightarrow> Inl e | Inr n \<Rightarrow> Inr (Some n)))"

text \<open>
  The seconds of a \<^verbatim>\<open>Wait\<close>: the first run of digits of the duration text
  (\<^verbatim>\<open>re.search(r"(\d+)", duration)\<close>), 2 when there is none, clamped by
  \<^verbatim>\<open>max(1, min(sec, 15))\<close>.
\<close>

definition wait_seconds :: "string \<Rightarrow> py_error + int" where
  "wait_seconds duration =
     (case re_search (Grp 1 digits) duration of
        None \<Rightarrow> Inr (max 1 (min 2 15))
      | Some m_d \<Rightarrow>
          (case group_int m_d 1 of Inl e \<Rightarrow> Inl e | Inr sec \<Rightarrow> Inr (max 1 (min sec 15))))"

text \<open>
  \<^verbatim>\<open>parse_action\<close>.  The pattern of a \<^verbatim>\<open>do\<close> call is
  \<^verbatim>\<open>do\(\s*action\s*=\s*"([^"]+)"(.*)\)\s*$\<close> with \<^verbatim>\<open>re.DOTALL\<close>, tried at the start of the
  stripped text.  For a swipe all three of \<^verbatim>\<open>start\<close>, \<^verbatim>\<open>end\<close> and \<^verbatim>\<open>durationMs\<close> are parsed
  before the test; a missing or zero duration is 300.
\<close>

definition rx_do :: rx where
  "rx_do =
     seqs [lit ''do('', ws, lit ''action'', ws, ch CHR ''='', ws, ch CHR 0x22,
           Grp 1 (plus (none_of [CHR 0x22])), ch CHR 0x22, Grp 2 (Star dot_all),
           ch CHR '')'', ws, Eol]"

definition parse_action :: "string \<Rightarrow> py_error + action" where
  "parse_action answer =
     (let txt = strip answer in
      if startswith txt ''finish('' then
        (case parse_quoted txt ''message'' of
           Inl e \<Rightarrow> Inl e
         | Inr msg \<Rightarrow> Inr (Finish (case msg of None \<Rightarrow> [] | Some v \<Rightarrow> v)))
      else
        case re_match rx_do txt of
          None \<Rightarrow> Inr (Invalid txt ''cannot parse action format'')
        | Some m \<Rightarrow>
        case group_str m 1 of Inl e \<Rightarrow> Inl e | Inr g1 \<Rightarrow>
        case group_str m 2 of Inl e \<Rightarrow> Inl e | Inr args \<Rightarrow>
        let act = strip g1 in
        if act = ''Tap'' then
          (case parse_pair args ''element'' of
             Inl e \<Rightarrow> Inl e
           | Inr None \<Rightarrow> Inr (Invalid txt ''missing element=[x,y]'')
           | Inr (Some (x, y)) \<Rightarrow> Inr (Tap x y))
        else if act = ''Swipe'' then
          (case parse_pair args ''start'' of Inl e \<Rightarrow> Inl e | Inr s \<Rightarrow>
           case parse_pair args ''end'' of Inl e \<Rightarrow> Inl e | Inr e \<Rightarrow>
           case parse_int args ''durationMs'' of Inl e \<Rightarrow> Inl e | Inr d \<Rightarrow>
           case (s, e) of
             (Some (sx, sy), Some (ex, ey)) \<Rightarrow>
               Inr (Swipe sx sy ex ey
                      (case d of None \<Rightarrow> 300 | Some n \<Rightarrow> if n = 0 then 300 else n))
           | _ \<Rightarrow> Inr (Invalid txt ''missing start/end''))
        else if act = ''Type'' \<or> act = ''Type_Name'' then
          (case parse_quoted args ''text'' of
             Inl e \<Rightarrow> Inl e
           | Inr None \<Rightarrow> Inr (Invalid txt ''missing text'')
           | Inr (Some text_v) \<Rightarrow>
               (case parse_quoted args ''enterAction'' of
                  Inl e \<Rightarrow> Inl e
                | Inr enter_action \<Rightarrow> Inr (Type text_v enter_action)))
        else if act = ''Wait'' then
          (case parse_quoted args ''duration'' of
             Inl e \<Rightarrow> Inl e
           | Inr dur \<Rightarrow>
               (case wait_seconds (case dur of None \<Rightarrow> ''2 seconds''
                                    | Some v \<Rightarrow> if v = [] then ''2 seconds'' else v) of
                  Inl e \<Rightarrow> Inl e
                | Inr sec \<Rightarrow> Inr (Wait sec)))
        else Inr (Invalid txt (''unsupported action='' @ act)))"

section \<open>Agent: state comparator and tap executor\<close>

unbundle bit_operations_syntax

text \<open>\<^verbatim>\<open>UiState\<close>; its field \<^verbatim>\<open>text\<close> is \<open>ui_text\<close> here.\<close>

record UiState =
  source :: string
  ui_text :: string
  image_b64 :: string
  state_sig :: string
  screen_ahash :: "int option"

text \<open>\<^verbatim>\<open>int.bit_count()\<close>: the number of ones in the binary representation of the absolute
  value.  \<^verbatim>\<open>_hamming_distance(a, b) = (a ^ b).bit_count()\<close>.\<close>

function bit_count :: "int \<Rightarrow> int" where
  "bit_count n = (if n = 0 then 0 else \<bar>n\<bar> mod 2 + bit_count (\<bar>n\<bar> div 2))"
  by pat_completeness auto
termination
  by (relation "measure (\<lambda>n. nat \<bar>n\<bar>)") auto

declare bit_count.simps [simp del]

definition hamming_distance :: "int \<Rightarrow> int \<Rightarrow> int" where
  "hamming_distance a b = bit_count (a XOR b)"

text \<open>\<^verbatim>\<open>_states_similar\<close> returns the verdict and its reason.\<close>

definition states_similar :: "UiState option \<Rightarrow> UiState option \<Rightarrow> int \<Rightarrow> bool \<times> string" where
  "states_similar prev cur ahash_threshold =
     (case (prev, cur) of
        (Some p, Some c) \<Rightarrow>
          if source p \<noteq> source c then (False, ''source_changed'')
          else if source c = ''xml'' then
            (let same = (state_sig p = state_sig c)
             in (same, if same then ''xml_sig_equal'' else ''xml_sig_changed''))
          else
            (case (screen_ahash p, screen_ahash c) of
               (Some a, Some b) \<Rightarrow>
                 (let dist = hamming_distance a b
                  in (dist \<le> ahash_threshold, ''ahash_dist='' @ str_int dist))
             | _ \<Rightarrow>
                 (let same = (state_sig p = state_sig c)
                  in (same, if same then ''shot_sig_equal'' else ''shot_sig_changed'')))
      | _ \<Rightarrow> (False, ''missing_state''))"

text \<open>\<^verbatim>\<open>_clip(v, low, high) = max(low, min(high, v))\<close>\<close>

definition clip :: "int \<Rightarrow> int \<Rightarrow> int \<Rightarrow> int" where
  "clip v low high = max low (min high v)"

text \<open>
  The click range is the dictionary the device reports; its values are integers, so
  the \<^verbatim>\<open>int(...)\<close> around \<^verbatim>\<open>click_range.get(key, default)\<close> is the identity.
\<close>

type_synonym click_range = "(string \<times> int) list"

definition range_get :: "click_range \<Rightarrow> string \<Rightarrow> int \<Rightarrow> int" where
  "range_get cr k dflt = (case map_of cr k of Some v \<Rightarrow> v | None \<Rightarrow> dflt)"

definition xmin_of :: "click_range \<Rightarrow> int" where "xmin_of cr = range_get cr ''xMin'' 0"
definition ymin_of :: "click_range \<Rightarrow> int" where "ymin_of cr = range_get cr ''yMin'' 0"
definition xmax_of :: "click_range \<Rightarrow> int" where "xmax_of cr = range_get cr ''xMax'' 1079"
definition ymax_of :: "click_range \<Rightarrow> int" where "ymax_of cr = range_get cr ''yMax'' 2339"

text \<open>
  The device during one call of \<^verbatim>\<open>_tap_with_retry\<close>: what \<^verbatim>\<open>client.click\<close> answers to the
  click of attempt \<open>i\<close> at a point (the success flag \<^verbatim>\<open>status == 200\<close> and the body, or the
  \<^verbatim>\<open>HttpError\<close> of an unreachable service), and what \<^verbatim>\<open>fetch_ui_state\<close> returns after it.
\<close>

record tap_env =
  click :: "nat \<Rightarrow> int \<times> int \<Rightarrow> py_error + bool \<times> string"
  after_state :: "nat \<Rightarrow> py_error + UiState"

definition offsets :: "(int \<times> int) list" where
  "offsets = [(0, 0), (50, 0), (- 50, 0), (0, 50), (0, - 50), (80, 80), (- 80, 80)]"

text \<open>The point of attempt \<open>i\<close>: the target moved by \<^verbatim>\<open>offsets[i]\<close> and clipped.\<close>

definition tap_point :: "click_range \<Rightarrow> int \<Rightarrow> int \<Rightarrow> nat \<Rightarrow> int \<times> int" where
  "tap_point cr x y i =
     (case offsets ! i of (dx, dy) \<Rightarrow>
        (clip (x + dx) (xmin_of cr) (xmax_of cr), clip (y + dy) (ymin_of cr) (ymax_of cr)))"

text \<open>
  The loop of \<^verbatim>\<open>_tap_with_retry\<close> over the attempts that remain, with the loop variables
  \<^verbatim>\<open>any_success\<close>, \<^verbatim>\<open>last_body\<close> and \<^verbatim>\<open>final_point\<close>, and the list of the points clicked so
  far.  The result is the tuple the source returns, \<open>(success, body, ui_changed,
  final_point)\<close>, with the points clicked.
\<close>

type_synonym tap_result = "(bool \<times> string \<times> bool \<times> (int \<times> int)) \<times> (int \<times> int) list"

fun tap_loop ::
  "tap_env \<Rightarrow> UiState \<Rightarrow> click_range \<Rightarrow> int \<Rightarrow> int \<Rightarrow> int \<Rightarrow> nat list \<Rightarrow>
   bool \<Rightarrow> string \<Rightarrow> int \<times> int \<Rightarrow> (int \<times> int) list \<Rightarrow> py_error + tap_result" where
  "tap_loop env base_state cr x y ahash_threshold [] any_success last_body final_point clicks =
     Inr ((any_success, last_body, False, final_point), clicks)"
| "tap_loop env base_state cr x y ahash_threshold (i # rest) any_success last_body final_point
     clicks =
     (let pt = tap_point cr x y i in
      case click env i pt of
        Inl e \<Rightarrow> Inl e
      | Inr (ok, body) \<Rightarrow>
          if \<not> ok then
            tap_loop env base_state cr x y ahash_threshold rest any_success body pt
              (clicks @ [pt])
          else
            (case after_state env i of
               Inl e \<Rightarrow> Inl e
             | Inr after \<Rightarrow>
                 if \<not> fst (states_similar (Some base_state) (Some after) ahash_threshold)
                 then Inr ((True, body, True, pt), clicks @ [pt])
                 else tap_loop env base_state cr x y ahash_threshold rest True body pt
                        (clicks @ [pt])))"

text \<open>\<^verbatim>\<open>_tap_with_retry\<close>: \<^verbatim>\<open>attempts = min(max_retry + 1, len(offsets))\<close>, and the loop runs
  over \<^verbatim>\<open>range(attempts)\<close>, which is empty when \<open>attempts\<close> is not positive.\<close>

definition tap_with_retry ::
  "tap_env \<Rightarrow> UiState \<Rightarrow> int \<Rightarrow> int \<Rightarrow> click_range \<Rightarrow> int \<Rightarrow> int \<Rightarrow> py_error + tap_result" where
  "tap_with_retry env base_state x y cr max_retry ahash_threshold =
     (let attempts = min (max_retry + 1) (int (length offsets))
      in tap_loop env base_state cr x y ahash_threshold [0..<nat attempts]
           False [] (x, y) [])"

section \<open>Agent: episode loop\<close>

text \<open>
  The configuration \<^verbatim>\<open>run_agent\<close> reads, as far as the decisions of a step depend on it.
\<close>

record agent_config =
  cfg_click_range :: click_range
  tap_retry_on_no_change :: int
  invalid_action_retry :: int
  min_tap_drift_px :: int
  post_state_check :: bool
  screenshot_ahash_threshold :: int

text \<open>
  The loop guard of a tap (\<^verbatim>\<open>run_agent\<close>, the lines under
  \<^verbatim>\<open>if action["kind"] == "tap"\<close>): with a same-UI streak of at least 1 and a last tap
  point, a target whose Manhattan distance to that point is below the minimum drift is
  moved by the drift: to the right when that stays under \<open>xMax\<close>, else to the left when
  that stays above \<open>xMin\<close>, else down when that stays under \<open>yMax\<close>, else up, but not
  above \<open>yMin\<close>.
\<close>

definition manhattan :: "int \<times> int \<Rightarrow> int \<times> int \<Rightarrow> int" where
  "manhattan p q = \<bar>fst p - fst q\<bar> + \<bar>snd p - snd q\<bar>"

definition drift_guard_fires ::
  "agent_config \<Rightarrow> int \<Rightarrow> (int \<times> int) option \<Rightarrow> int \<times> int \<Rightarrow> bool" where
  "drift_guard_fires cfg streak last_tap target =
     (1 \<le> streak \<and>
      (case last_tap of None \<Rightarrow> False | Some l \<Rightarrow> manhattan target l < min_tap_drift_px cfg))"

definition force_drift :: "agent_config \<Rightarrow> int \<times> int \<Rightarrow> int \<times> int" where
  "force_drift cfg target =
     (case target of (target_x, target_y) \<Rightarrow>
        let cr = cfg_click_range cfg; d = min_tap_drift_px cfg in
        if target_x + d \<le> xmax_of cr then (target_x + d, target_y)
        else if xmin_of cr \<le> target_x - d then (target_x - d, target_y)
        else if target_y + d \<le> ymax_of cr then (target_x, target_y + d)
        else (target_x, max (ymin_of cr) (target_y - d)))"

definition adjust_target ::
  "agent_config \<Rightarrow> int \<Rightarrow> (int \<times> int) option \<Rightarrow> int \<times> int \<Rightarrow> int \<times> int" where
  "adjust_target cfg streak last_tap target =
     (if drift_guard_fires cfg streak last_tap target then force_drift cfg target else target)"

text \<open>
  What the agent sends to the device, in order: a click, a swipe, a text input.  A wait is
  a sleep of the agent itself.
\<close>

datatype command =
    Click int int
  | SwipeCmd int int int int int
  | InputCmd string "string option"
  | Sleep int

text \<open>
  The state the loop carries from step to step: \<^verbatim>\<open>prev_state\<close>, \<^verbatim>\<open>same_state_streak\<close> and
  \<^verbatim>\<open>last_tap_point\<close>, and with them the record of the run: the actions dispatched to an
  executor so far and the commands sent so far.
\<close>

record loop_state =
  prev_state :: "UiState option"
  same_state_streak :: int
  last_tap_point :: "(int \<times> int) option"
  dispatched :: "action list"
  sent :: "command list"

definition initial_state :: loop_state where
  "initial_state = \<lparr>prev_state = None, same_state_streak = 0, last_tap_point = None,
     dispatched = [], sent = []\<rparr>"

text \<open>
  The world during one step: the state \<^verbatim>\<open>fetch_ui_state\<close> captures at its start, the
  model's answer, its answers to the strict prompts that follow an invalid action
  (numbered from 1), the device's answers to the clicks of the tap executor and the states
  captured after them, its answers to a swipe and to a text input, the state captured
  by the post-action check, and whether the focus crop after an ineffective tap could be
  made.  Each may be the \<^verbatim>\<open>HttpError\<close> of an unreachable service.
\<close>

record step_env =
  env_main :: "py_error + UiState"
  env_raw :: "py_error + string"
  env_recover :: "nat \<Rightarrow> py_error + string"
  env_tap :: tap_env
  env_swipe :: "py_error + bool \<times> string"
  env_input :: "py_error + bool \<times> string"
  env_post :: "py_error + UiState"
  env_focus :: "py_error + unit"

text \<open>The recovery loop over the attempts \<^verbatim>\<open>range(1, max(0, invalid_action_retry) + 1)\<close>:
  the first answer that does not parse to an invalid action.\<close>

fun recover :: "(nat \<Rightarrow> py_error + string) \<Rightarrow> nat list \<Rightarrow> py_error + action option" where
  "recover answers [] = Inr None"
| "recover answers (attempt # rest) =
     (case answers attempt of
        Inl e \<Rightarrow> Inl e
      | Inr raw2 \<Rightarrow>
          (case extract_answer raw2 of
             Inl e \<Rightarrow> Inl e
           | Inr answer2 \<Rightarrow>
               (case parse_action answer2 of
                  Inl e \<Rightarrow> Inl e
                | Inr action2 \<Rightarrow>
                    if kind_of action2 \<noteq> ''invalid'' then Inr (Some action2)
                    else recover answers rest)))"

text \<open>
  The dispatch of an action to its executor.  It returns the flags \<^verbatim>\<open>ok\<close> and
  \<^verbatim>\<open>ui_changed\<close> and the new state: a tap runs the loop guard and the tap executor and
  stores the executor's final point as the last tap point; a swipe sends the five numbers
  of the action as they are; a swipe, a text input and a wait reset the last tap point;
  any other kind (a \<^verbatim>\<open>finish\<close> that came out of the recovery) matches no branch.
\<close>

definition dispatch ::
  "agent_config \<Rightarrow> step_env \<Rightarrow> UiState \<Rightarrow> loop_state \<Rightarrow> action \<Rightarrow>
   py_error + bool \<times> bool \<times> loop_state" where
  "dispatch cfg env state s a =
     (case a of
        Tap x y \<Rightarrow>
          (case adjust_target cfg (same_state_streak s) (last_tap_point s) (x, y) of
             (target_x, target_y) \<Rightarrow>
               (case tap_with_retry (env_tap env) state target_x target_y (cfg_click_range cfg)
                       (tap_retry_on_no_change cfg) (screenshot_ahash_threshold cfg) of
                  Inl e \<Rightarrow> Inl e
                | Inr ((ok, body, ui_changed, final_tap), clicks) \<Rightarrow>
                    Inr (ok, ui_changed,
                         s\<lparr>last_tap_point := Some final_tap,
                           dispatched := dispatched s @ [a],
                           sent := sent s @ map (\<lambda>(cx, cy). Click cx cy) clicks\<rparr>)))
      | Swipe sx sy ex ey d \<Rightarrow>
          (case env_swipe env of
             Inl e \<Rightarrow> Inl e
           | Inr (ok, body) \<Rightarrow>
               Inr (ok, False,
                    s\<lparr>last_tap_point := None, dispatched := dispatched s @ [a],
                      sent := sent s @ [SwipeCmd sx sy ex ey d]\<rparr>))
      | Type t enter_action \<Rightarrow>
          (case env_input env of
             Inl e \<Rightarrow> Inl e
           | Inr (ok, body) \<Rightarrow>
               Inr (ok, False,
                    s\<lparr>last_tap_point := None, dispatched := dispatched s @ [a],
                      sent := sent s @ [InputCmd t enter_action]\<rparr>))
      | Wait sec \<Rightarrow>
          Inr (True, False,
               s\<lparr>last_tap_point := None, dispatched := dispatched s @ [a],
                 sent := sent s @ [Sleep sec]\<rparr>)
      | _ \<Rightarrow> Inr (False, False, s))"

text \<open>
  One pass through the body of the loop of \<^verbatim>\<open>run_agent\<close>.  It ends the run with the
  message of a \<^verbatim>\<open>finish\<close> action, or hands the next state on.  The prompts, the history
  lines and the content of the focus crop are not modelled: they do not enter the choice
  of the executor, the coordinates sent or the last tap point.
\<close>

datatype step_result = Finished string | Continue loop_state

definition agent_step :: "agent_config \<Rightarrow> step_env \<Rightarrow> loop_state \<Rightarrow> py_error + step_result" where
  "agent_step cfg env s =
     (case env_main env of Inl e \<Rightarrow> Inl e | Inr state \<Rightarrow>
      let same_as_prev = fst (states_similar (prev_state s) (Some state)
                                (screenshot_ahash_threshold cfg));
          streak = (if prev_state s \<noteq> None \<and> same_as_prev then same_state_streak s + 1 else 0);
          s1 = s\<lparr>prev_state := Some state, same_state_streak := streak\<rparr>
      in
      case env_raw env of Inl e \<Rightarrow> Inl e | Inr raw \<Rightarrow>
      case extract_answer raw of Inl e \<Rightarrow> Inl e | Inr answer \<Rightarrow>
      case parse_action answer of Inl e \<Rightarrow> Inl e | Inr a \<Rightarrow>
      if kind_of a = ''finish'' then
        Inr (Finished (case a of Finish msg \<Rightarrow> msg | _ \<Rightarrow> []))
      else
        case (if kind_of a = ''invalid''
              then recover (env_recover env) [1..<nat (max 0 (invalid_action_retry cfg)) + 1]
              else Inr (Some a)) of
          Inl e \<Rightarrow> Inl e
        | Inr None \<Rightarrow> Inr (Continue s1)
        | Inr (Some a') \<Rightarrow>
            (case dispatch cfg env state s1 a' of
               Inl e \<Rightarrow> Inl e
             | Inr (ok, tap_changed, s2) \<Rightarrow>
                 (case (if post_state_check cfg \<and> ok
                        then (case env_post env of
                                Inl e \<Rightarrow> Inl e
                              | Inr post \<Rightarrow>
                                  Inr (tap_changed \<or>
                                       \<not> fst (states_similar (Some state) (Some post)
                                                (screenshot_ahash_threshold cfg))))
                        else Inr tap_changed) of
                    Inl e \<Rightarrow> Inl e
                  | Inr ui_changed \<Rightarrow>
                      if kind_of a' = ''tap'' \<and> ok \<and> \<not> ui_changed
                      then (case env_focus env of
                              Inl e \<Rightarrow> Inl e
                            | Inr u \<Rightarrow> Inr (Continue s2))
                      else Inr (Continue s2))))"

text \<open>
  The loop of \<^verbatim>\<open>run_agent\<close> over the steps \<^verbatim>\<open>1..max_steps\<close>, one environment per step: the
  run ends at a \<^verbatim>\<open>finish\<close> (exit code 0) or when the steps are used up (exit code 2).
\<close>

datatype run_result = Done string loop_state | Exhausted loop_state

fun run_steps :: "agent_config \<Rightarrow> step_env list \<Rightarrow> loop_state \<Rightarrow> py_error + run_result" where
  "run_steps cfg [] s = Inr (Exhausted s)"
| "run_steps cfg (env # envs) s =
     (case agent_step cfg env s of
        Inl e \<Rightarrow> Inl e
      | Inr (Finished msg) \<Rightarrow> Inr (Done msg s)
      | Inr (Continue s') \<Rightarrow> run_steps cfg envs s')"

definition run_agent :: "agent_config \<Rightarrow> step_env list \<Rightarrow> py_error + run_result" where
  "run_agent cfg envs = run_steps cfg envs initial_state"

definition final_state :: "run_result \<Rightarrow> loop_state" where
  "final_state r = (case r of Done msg s \<Rightarrow> s | Exhausted s \<Rightarrow> s)"

text \<open>Whether a point lies in the click range.\<close>

definition in_click_range :: "click_range \<Rightarrow> int \<times> int \<Rightarrow> bool" where
  "in_click_range cr p =
     (xmin_of cr \<le> fst p \<and> fst p \<le> xmax_of cr \<and> ymin_of cr \<le> snd p \<and> snd p \<le> ymax_of cr)"

text \<open>
  The relation between the last tap point and the record of the run: no last tap point is
  stored exactly when nothing was dispatched yet or the action dispatched last is not a
  tap.
\<close>

definition tap_tracked :: "loop_state \<Rightarrow> bool" where
  "tap_tracked s =
     (last_tap_point s = None \<longleftrightarrow>
        dispatched s = [] \<or> kind_of (last (dispatched s)) \<noteq> ''tap'')"


section \<open>Sample states and configurations\<close>

text \<open>A state captured from the XML dump and one captured from a screenshot, with the same
  signature.\<close>

definition xml_state :: UiState where
  "xml_state = \<lparr>source = ''xml'', ui_text = ''<hierarchy/>'', image_b64 = [],
     state_sig = ''3f2a'', screen_ahash = None\<rparr>"

definition shot_state :: UiState where
  "shot_state = \<lparr>source = ''screenshot'', ui_text = [], image_b64 = ''iVBOR'',
     state_sig = ''3f2a'', screen_ahash = Some 255\<rparr>"

text \<open>A device that answers every click, the second one with a failure, and whose screen
  never changes.\<close>

definition stuck_device :: tap_env where
  "stuck_device = \<lparr>click = (\<lambda>i pt. Inr (i \<noteq> 1, if i \<noteq> 1 then ''done'' else ''busy'')),
     after_state = (\<lambda>i. Inr shot_state)\<rparr>"

text \<open>The configuration of the agent with the defaults of \<^verbatim>\<open>run_agent\<close>, on a device of
  1080 by 2340 pixels.\<close>

definition default_config :: agent_config where
  "default_config = \<lparr>cfg_click_range = [(''xMin'', 0), (''yMin'', 0), (''xMax'', 1079), (''yMax'', 2339)],
     tap_retry_on_no_change = 2, invalid_action_retry = 1, min_tap_drift_px = 50,
     post_state_check = True, screenshot_ahash_threshold = 6\<rparr>"

text \<open>
  A step on the device whose screen never changes, with a given answer of the model, and
  four answers: a tap inside the click range, a second tap near it, a tap outside the
  click range and a swipe outside it.
\<close>

definition model_step :: "string \<Rightarrow> step_env" where
  "model_step raw =
     \<lparr>env_main = Inr shot_state, env_raw = Inr raw, env_recover = (\<lambda>n. Inl HttpError),
      env_tap = stuck_device, env_swipe = Inr (True, ''done''), env_input = Inr (True, ''done''),
      env_post = Inr shot_state, env_focus = Inr ()\<rparr>"

definition tap_answer :: string where
  "tap_answer = ''do(action=\"Tap\", element=[400,900])''"

definition near_tap_answer :: string where
  "near_tap_answer = ''do(action=\"Tap\", element=[330,900])''"

definition far_tap_answer :: string where
  "far_tap_answer = ''do(action=\"Tap\", element=[5000,-10])''"

definition far_swipe_answer :: string where
  "far_swipe_answer = ''do(action=\"Swipe\", start=[5000,5000], end=[-10,-10], durationMs=300)''"

text \<open>The state of the loop after a tap at (400, 900) on that device, and after a swipe that
  follows it.\<close>

definition tapped_state :: loop_state where
  "tapped_state =
     \<lparr>prev_state = None, same_state_streak = 0, last_tap_point = Some (350, 900),
      dispatched = [Tap 400 900], sent = [Click 400 900, Click 450 900, Click 350 900]\<rparr>"

definition swiped_state :: loop_state where
  "swiped_state =
     \<lparr>prev_state = None, same_state_streak = 0, last_tap_point = None,
      dispatched = [Tap 400 900, Swipe 100 1800 100 600 300],
      sent = [Click 400 900, Click 450 900, Click 350 900, SwipeCmd 100 1800 100 600 300]\<rparr>"

text \<open>
  The planner text cut off inside the regions array, the same text complete, and a parser
  that knows the complete text only.
\<close>

definition truncated_planner_text :: string where
  "truncated_planner_text = ''{\"action\":\"tap\",\"region\":5,\"regions\":[5,6''"

definition complete_planner_text :: string where
  "complete_planner_text = ''{\"action\":\"tap\",\"region\":5,\"regions\":[5,6]}''"

definition sample_loads :: "string \<Rightarrow> jval option" where
  "sample_loads s =
     (if s = complete_planner_text
      then Some (JDict [(''action'', JStr ''tap''), (''region'', JInt 5),
                        (''regions'', JList [JInt 5, JInt 6])])
      else None)"

text \<open>
  The answer \<^verbatim>\<open>do(action="Tap", element=[1...1,2])\<close> whose first coordinate is the digit 1
  written \<open>n\<close> times, and the arguments of its call.
\<close>

definition long_tap_args :: "nat \<Rightarrow> string" where
  "long_tap_args n = '', element=['' @ replicate n CHR ''1'' @ '',2]''"

definition long_tap_answer :: "nat \<Rightarrow> string" where
  "long_tap_answer n = ''do(action=\"Tap\"'' @ long_tap_args n @ '')''"


section \<open>Properties of the matcher\<close>

text \<open>What it means for a result to be among those of a sequence, a star or a group; every
  result is a suffix of the text; a star or a plus over one class of characters consumes
  characters of that class only and captures nothing.\<close>

lemma in_rx_run_Seq:
  "(s', c') \<in> set (rx_run (Seq a b) s c) \<longleftrightarrow>
     (\<exists>s1 c1. (s1, c1) \<in> set (rx_run a s c) \<and> length s1 \<le> length s \<and>
        (s', c') \<in> set (rx_run b s1 c1))"
  by (auto simp add: rx_run.simps(4) split: if_splits)

lemma in_rx_run_Star:
  "(s', c') \<in> set (rx_run (Star a) s c) \<longleftrightarrow>
     (s', c') = (s, c) \<or>
     (\<exists>s1 c1. (s1, c1) \<in> set (rx_run a s c) \<and> length s1 < length s \<and>
        (s', c') \<in> set (rx_run (Star a) s1 c1))"
  by (subst rx_run.simps(6)) (auto split: if_splits)

lemma in_rx_run_LazyStar:
  "(s', c') \<in> set (rx_run (LazyStar a) s c) \<longleftrightarrow>
     (s', c') = (s, c) \<or>
     (\<exists>s1 c1. (s1, c1) \<in> set (rx_run a s c) \<and> length s1 < length s \<and>
        (s', c') \<in> set (rx_run (LazyStar a) s1 c1))"
  by (subst rx_run.simps(7)) (auto split: if_splits)

lemma in_rx_run_Grp:
  "(s', c') \<in> set (rx_run (Grp g a) s c) \<longleftrightarrow>
     (\<exists>c1. (s', c1) \<in> set (rx_run a s c) \<and> c' = (g, take (length s - length s') s) # c1)"
  by (auto simp add: rx_run.simps(8))

lemma rx_run_suffix:
  "(s', c') \<in> set (rx_run r s c) \<Longrightarrow> \<exists>w. s = w @ s'"
proof (induction r s c arbitrary: s' c' rule: rx_run.induct)
  case (1 p s c)
  then show ?case by (auto simp: rx_run.simps(1) split: list.splits if_splits)
next
  case (2 s c)
  then show ?case by (simp add: rx_run.simps(2))
next
  case (3 s c)
  then show ?case by (auto simp: rx_run.simps(3) split: if_splits)
next
  case (4 a b s c)
  from "4.prems" obtain s1 c1 where a: "(s1, c1) \<in> set (rx_run a s c)"
    and le: "length s1 \<le> length s" and b: "(s', c') \<in> set (rx_run b s1 c1)"
    unfolding in_rx_run_Seq by blast
  from "4.IH"(1)[OF a] obtain w1 where "s = w1 @ s1" by blast
  moreover from "4.IH"(2)[OF a _ le b] obtain w2 where "s1 = w2 @ s'" by auto
  ultimately show ?case by auto
next
  case (5 a b s c)
  from "5.prems" have "(s', c') \<in> set (rx_run a s c) \<or> (s', c') \<in> set (rx_run b s c)"
    by (simp add: rx_run.simps(5))
  then show ?case using "5.IH" by blast
next
  case (6 a s c)
  from "6.prems"[unfolded in_rx_run_Star[of s' c' a s c]]
  consider "(s', c') = (s, c)"
    | s1 c1 where "(s1, c1) \<in> set (rx_run a s c)" "length s1 < length s"
        "(s', c') \<in> set (rx_run (Star a) s1 c1)"
    by blast
  then show ?case
  proof cases
    case 1 then show ?thesis by simp
  next
    case 2
    from "6.IH"(1)[OF 2(1)] obtain w1 where "s = w1 @ s1" by blast
    moreover from "6.IH"(2)[OF 2(1) _ 2(2) 2(3)] obtain w2 where "s1 = w2 @ s'" by auto
    ultimately show ?thesis by auto
  qed
next
  case (7 a s c)
  from "7.prems"[unfolded in_rx_run_LazyStar[of s' c' a s c]]
  consider "(s', c') = (s, c)"
    | s1 c1 where "(s1, c1) \<in> set (rx_run a s c)" "length s1 < length s"
        "(s', c') \<in> set (rx_run (LazyStar a) s1 c1)"
    by blast
  then show ?case
  proof cases
    case 1 then show ?thesis by simp
  next
    case 2
    from "7.IH"(1)[OF 2(1)] obtain w1 where "s = w1 @ s1" by blast
    moreover from "7.IH"(2)[OF 2(1) _ 2(2) 2(3)] obtain w2 where "s1 = w2 @ s'" by auto
    ultimately show ?thesis by auto
  qed
next
  case (8 g a s c)
  from "8.prems" obtain c1 where "(s', c1) \<in> set (rx_run a s c)"
    unfolding in_rx_run_Grp by blast
  then show ?case using "8.IH" by blast
qed

lemma rx_run_star_sym:
  "(s', c') \<in> set (rx_run (Star (Sym p)) s c) \<Longrightarrow> c' = c \<and> (\<exists>w. s = w @ s' \<and> list_all p w)"
proof (induction s arbitrary: s' c')
  case Nil
  then show ?case unfolding in_rx_run_Star[of s' c' "Sym p" "[]" c] by (auto simp: rx_run.simps(1))
next
  case (Cons x xs)
  show ?case
  proof (cases "p x")
    case True
    with Cons.prems have "(s', c') \<in> set (rx_run (Star (Sym p)) xs c) \<or> (s', c') = (x # xs, c)"
      unfolding in_rx_run_Star[of s' c' "Sym p" "x # xs" c] by (auto simp: rx_run.simps(1))
    then show ?thesis
    proof
      assume "(s', c') \<in> set (rx_run (Star (Sym p)) xs c)"
      from Cons.IH[OF this] obtain w where "c' = c" "xs = w @ s'" "list_all p w" by blast
      then have "x # xs = (x # w) @ s'" "list_all p (x # w)" using True by auto
      with \<open>c' = c\<close> show ?thesis by blast
    next
      assume "(s', c') = (x # xs, c)"
      then show ?thesis by auto
    qed
  next
    case False
    with Cons.prems show ?thesis
      unfolding in_rx_run_Star[of s' c' "Sym p" "x # xs" c] by (auto simp: rx_run.simps(1))
  qed
qed

lemma rx_run_plus_sym:
  assumes "(s', c') \<in> set (rx_run (plus (Sym p)) s c)"
  shows "c' = c \<and> (\<exists>w. s = w @ s' \<and> w \<noteq> [] \<and> list_all p w)"
proof -
  from assms obtain x xs where s: "s = x # xs" and px: "p x"
    and r: "(s', c') \<in> set (rx_run (Star (Sym p)) xs c)"
    unfolding plus_def in_rx_run_Seq by (auto simp: rx_run.simps(1) split: list.splits if_splits)
  from rx_run_star_sym[OF r] obtain w where "c' = c" "xs = w @ s'" "list_all p w" by blast
  then have "s = (x # w) @ s'" "x # w \<noteq> []" "list_all p (x # w)" using s px by auto
  with \<open>c' = c\<close> show ?thesis by blast
qed

lemma take_consumed: "s = w @ s' \<Longrightarrow> take (length s - length s') s = w"
  by simp

lemma rx_run_digits_Nil [simp]: "rx_run digits [] c = []"
  by (simp add: digits_def plus_def rx_run.simps)

lemma re_findall_digits:
  "w \<in> set (re_findall digits s) \<Longrightarrow> w \<noteq> [] \<and> list_all digit w"
proof (induction s arbitrary: w rule: length_induct)
  case (1 s)
  note IH = "1.IH"[rule_format]
  show ?case
  proof (cases "rx_run digits s []")
    case Nil
    show ?thesis
    proof (cases s)
      case Nil
      with "1.prems" show ?thesis by (simp add: re_findall.simps[of digits "[]"])
    next
      case (Cons x xs)
      with "1.prems" Nil have "w \<in> set (re_findall digits xs)"
        by (simp add: re_findall.simps[of digits "x # xs"])
      moreover have "length xs < length s" using Cons by simp
      ultimately show ?thesis using IH by blast
    qed
  next
    case (Cons m ms)
    obtain rest c where m: "m = (rest, c)" by (cases m)
    have "(rest, c) \<in> set (rx_run (plus (Sym digit)) s [])"
      using Cons m by (simp add: digits_def)
    from rx_run_plus_sym[OF this] obtain u where u: "s = u @ rest" "u \<noteq> []" "list_all digit u"
      by blast
    then have lt: "length rest < length s" by simp
    have tk: "take (length s - length rest) s = u" using u(1) by simp
    from "1.prems" have "w = u \<or> w \<in> set (re_findall digits rest)"
      using Cons m lt tk by (simp add: re_findall.simps[of digits s])
    then show ?thesis
    proof
      assume "w = u" with u show ?thesis by simp
    next
      assume "w \<in> set (re_findall digits rest)"
      with IH lt show ?thesis by blast
    qed
  qed
qed

text \<open>
  The matcher in continuation style.  The length tests of a sequence never fail, since
  every result is a suffix of the text; a star over one class of characters, run on a text
  that starts with \<open>n\<close> copies of a character of the class, first goes on behind them and
  then gives back one copy after the other.
\<close>

lemma rx_run_as_then: "rx_run r s c = rx_then r s c (\<lambda>s1 c1. [(s1, c1)])"
proof -
  have "concat (map (\<lambda>(s1, c1). [(s1, c1)]) xs) = xs" for xs :: "(string \<times> caps) list"
    by (induction xs) auto
  then show ?thesis by (simp add: rx_then_def)
qed

lemma rx_run_Seq_plain:
  "rx_run (Seq a b) s c = concat (map (\<lambda>(s1, c1). rx_run b s1 c1) (rx_run a s c))"
proof -
  have eq: "map (\<lambda>(s1, c1). if length s1 \<le> length s then rx_run b s1 c1 else []) (rx_run a s c) =
        map (\<lambda>(s1, c1). rx_run b s1 c1) (rx_run a s c)"
  proof (rule map_cong[OF refl])
    fix x assume x: "x \<in> set (rx_run a s c)"
    obtain s1 c1 where p: "x = (s1, c1)" by (cases x)
    with x rx_run_suffix[of s1 c1 a s c] obtain w where "s = w @ s1" by blast
    then have "length s1 \<le> length s" by simp
    with p show "(case x of (s1, c1) \<Rightarrow> if length s1 \<le> length s then rx_run b s1 c1 else []) =
       (case x of (s1, c1) \<Rightarrow> rx_run b s1 c1)" by simp
  qed
  show ?thesis by (simp only: rx_run.simps(4) eq)
qed

lemma concat_map_concat_map:
  "concat (map f (concat (map g xs))) = concat (map (\<lambda>x. concat (map f (g x))) xs)"
  by (induction xs) simp_all

lemma then_Seq: "rx_then (Seq a b) s c k = rx_then a s c (\<lambda>s1 c1. rx_then b s1 c1 k)"
  unfolding rx_then_def rx_run_Seq_plain
  by (simp add: concat_map_concat_map case_prod_unfold)

lemma then_Sym_Cons: "rx_then (Sym p) (x # xs) c k = (if p x then k xs c else [])"
  by (simp add: rx_then_def rx_run.simps(1))

lemma then_Sym_Nil: "rx_then (Sym p) [] c k = []"
  by (simp add: rx_then_def rx_run.simps(1))

lemma then_Eps: "rx_then Eps s c k = k s c"
  by (simp add: rx_then_def rx_run.simps(2))

lemma then_Eol: "rx_then Eol s c k = (if s = [] \<or> s = [CHR 0x0A] then k s c else [])"
  by (simp add: rx_then_def rx_run.simps(3))

lemma then_Alt: "rx_then (Alt a b) s c k = rx_then a s c k @ rx_then b s c k"
  by (simp add: rx_then_def rx_run.simps(5))

lemma then_Grp:
  "rx_then (Grp g a) s c k =
     rx_then a s c (\<lambda>s1 c1. k s1 ((g, take (length s - length s1) s) # c1))"
  by (simp add: rx_then_def rx_run.simps(8) comp_def case_prod_unfold)

lemma then_Star_Sym_Nil: "rx_then (Star (Sym p)) [] c k = k [] c"
  by (simp add: rx_then_def rx_run.simps(6) rx_run.simps(1))

lemma then_Star_Sym_Cons:
  "rx_then (Star (Sym p)) (x # xs) c k =
     (if p x then rx_then (Star (Sym p)) xs c k @ k (x # xs) c else k (x # xs) c)"
  by (simp add: rx_then_def rx_run.simps(6)[of "Sym p" "x # xs"] rx_run.simps(1))

lemma then_Star_Sym_replicate:
  "p x \<Longrightarrow> rx_then (Star (Sym p)) (replicate n x @ rest) c k =
     rx_then (Star (Sym p)) rest c k @
     concat (map (\<lambda>j. k (replicate j x @ rest) c) [1..<Suc n])"
proof (induction n)
  case 0
  then show ?case by simp
next
  case (Suc n)
  then show ?case by (simp add: then_Star_Sym_Cons)
qed

lemmas then_simps = then_Seq then_Sym_Cons then_Sym_Nil then_Eps then_Eol then_Alt then_Grp
  then_Star_Sym_Nil then_Star_Sym_Cons then_Star_Sym_replicate

lemmas rx_defs = seqs_def lit_def ch_def ws_def plus_def opt_def none_of_def dot_all_def
  digits_def

lemma re_search_from_hit:
  "re_match_at r pre s = Some m \<Longrightarrow> re_search_from r pre s = Some m"
  by (cases s) simp_all


section \<open>Properties of the Python library functions\<close>

text \<open>\<^verbatim>\<open>int\<close> accepts a run of at most 4300 digits, with or without a minus sign in front,
  and refuses a longer one.\<close>

lemma collect_Inr:
  "(\<forall>x \<in> set xs. \<exists>v. x = Inr v) \<Longrightarrow> \<exists>vs. collect xs = Inr vs \<and> map Inr vs = xs"
proof (induction xs)
  case Nil then show ?case by simp
next
  case (Cons x xs)
  then obtain v where x: "x = Inr v" by auto
  from Cons obtain vs where "collect xs = Inr vs" "map Inr vs = xs" by auto
  with x show ?case by simp
qed

lemma digit_not_special:
  "digit c \<Longrightarrow> \<not> is_space c \<and> c \<noteq> CHR ''-'' \<and> c \<noteq> CHR ''+'' \<and> c \<noteq> CHR ''_''"
  by (auto simp: digit_def is_space_def)

lemma int_digits_all:
  "list_all digit w \<Longrightarrow> w \<noteq> [] \<or> after_digit \<Longrightarrow> \<exists>n. int_digits w after_digit acc = Some n"
  by (induction w arbitrary: after_digit acc) auto

lemma strip_no_space:
  assumes "w \<noteq> []" "\<not> is_space (hd w)" "\<not> is_space (last w)"
  shows "strip w = w"
proof -
  have 1: "dropWhile is_space w = w" using assms(1,2) by (cases w) auto
  obtain y ys where r: "rev w = y # ys" using assms(1) by (cases "rev w") auto
  then have "y = last w" by (metis hd_rev list.sel(1))
  then have "dropWhile is_space (y # ys) = y # ys" using assms(3) by simp
  then have 2: "dropWhile is_space (rev w) = rev w" by (simp only: r)
  show ?thesis by (simp add: strip_def 1 2)
qed

lemma digits_py_int_str:
  assumes "w \<noteq> []" "list_all digit w" "length w \<le> 4300"
  shows "\<exists>n. py_int_str w = Some n"
proof -
  obtain x xs where w: "w = x # xs" using assms(1) by (cases w) auto
  have dx: "digit x" using assms(2) w by simp
  have "digit (last w)" using assms by (simp add: list_all_iff)
  then have "strip w = w"
    using assms(1) dx w digit_not_special by (intro strip_no_space) auto
  moreover obtain n where "int_digits (x # xs) False 0 = Some n"
    using int_digits_all[of w False 0] assms w by auto
  moreover have "length (filter digit (x # xs)) \<le> 4300"
    using assms(3) w by (metis length_filter_le order_trans)
  ultimately show ?thesis
    using dx digit_not_special[OF dx] w by (simp add: py_int_str_def int_max_str_digits_def)
qed

lemma long_digits_py_int_str:
  assumes "list_all digit w" "4300 < length w"
  shows "py_int_str w = None"
proof -
  obtain x xs where w: "w = x # xs" using assms(2) by (cases w) auto
  have dx: "digit x" using assms(1) w by simp
  have "digit (last w)" using assms w by (simp add: list_all_iff)
  then have "strip w = w"
    using dx w digit_not_special by (intro strip_no_space) auto
  moreover have "filter digit w = w" using assms(1) by (simp add: list_all_iff)
  ultimately show ?thesis
    using assms(2) w by (simp add: py_int_str_def int_max_str_digits_def)
qed

lemma neg_digits_py_int_str:
  assumes "ds \<noteq> []" "list_all digit ds" "length ds \<le> 4300"
  shows "\<exists>n. py_int_str (CHR ''-'' # ds) = Some n"
proof -
  have "digit (last ds)" using assms by (simp add: list_all_iff)
  then have "\<not> is_space (last (CHR ''-'' # ds))" using assms(1) digit_not_special by simp
  then have "strip (CHR ''-'' # ds) = CHR ''-'' # ds"
    by (intro strip_no_space) (auto simp: is_space_def)
  moreover obtain n where "int_digits ds False 0 = Some n"
    using int_digits_all[of ds False 0] assms by auto
  moreover have "length (filter digit (CHR ''-'' # ds)) \<le> 4300"
    using assms(3) by (simp add: digit_def) (metis length_filter_le order_trans)
  ultimately show ?thesis by (simp add: py_int_str_def int_max_str_digits_def)
qed

section \<open>Properties of the grid partitioner and the region mapper\<close>

subsection \<open>Grid partitioner\<close>

lemma min_by_mem: "min_by key lt best xs \<in> set (best # xs)"
  by (induction xs arbitrary: best) auto

lemma grid_candidates_props:
  assumes "g \<in> set (grid_candidates width height lo hi)"
  shows "lo \<le> grid_rows g \<and> grid_rows g \<le> hi \<and> lo \<le> grid_cols g \<and> grid_cols g \<le> hi \<and>
         1 < cell_width width g \<and> 1 < cell_height height g"
  using assms
  by (auto simp: grid_candidates_def Let_def grid_rows_def grid_cols_def cell_width_def
      cell_height_def split: if_splits)

lemma grid_candidates_33:
  assumes "3 < width" "3 < height"
  shows "grid_candidates width height 3 12 \<noteq> []"
proof -
  let ?g = "(3::int, 3::int, 3 * 3 :: int, (real_of_int width / 3) / (real_of_int height / 3),
             log_error_of ((real_of_int width / 3) / (real_of_int height / 3)))"
  have "?g \<in> set (grid_candidates width height 3 12)"
    using assms unfolding grid_candidates_def Let_def
    by (auto intro!: bexI[of _ 3])
  then show ?thesis by auto
qed

text \<open>
  Claim C3 as stated: for every frame width and height above 0, with the default bounds,
  rows and columns lie in \<open>[3, 12]\<close> and the cell width and height computed from the result
  exceed one pixel.  The second half fails on a frame with a side of at most three
  pixels: no pair of the range gives a cell wider than one pixel, the list of candidates
  is empty and the partitioner returns its default, 3 by 3.  On a 3 by 3 frame the cell is
  exactly one pixel wide and high.
\<close>

theorem choose_adaptive_grid_degenerate_counterexample:
  "choose_adaptive_grid 3 3 3 12 (1 / 5) = Inr (3, 3, 9, 1, 0) \<and>
   \<not> 1 < cell_width 3 (3, 3, 9, 1, 0) \<and> \<not> 1 < cell_height 3 (3, 3, 9, 1, 0)"
  by (simp add: choose_adaptive_grid_def grid_candidates_def log_error_of_def upto_rec1
      cell_width_def cell_height_def)

text \<open>
  Claim C3, amended: for every frame width and height (and every target log-error), with
  the bounds 3 and 12 the partitioner returns a grid whose rows and columns both lie in
  \<open>[3, 12]\<close>; when the width and the height both exceed 3 pixels, the cell width
  \<open>width / cols\<close> and the cell height \<open>height / rows\<close> of that grid each exceed one pixel.
  (When a side is at most 3 pixels the result is the default 3 by 3 grid.)
\<close>

theorem choose_adaptive_grid_bounds:
  "\<exists>g. choose_adaptive_grid width height 3 12 target = Inr g \<and>
        3 \<le> grid_rows g \<and> grid_rows g \<le> 12 \<and> 3 \<le> grid_cols g \<and> grid_cols g \<le> 12 \<and>
        (3 < width \<and> 3 < height \<longrightarrow> 1 < cell_width width g \<and> 1 < cell_height height g)"
proof (cases "grid_candidates width height 3 12")
  case Nil
  then have "choose_adaptive_grid width height 3 12 target =
      Inr (3, 3, 9, real_of_int width / max 1 (real_of_int height),
           log_error_of (real_of_int width / max 1 (real_of_int height)))"
    by (simp add: choose_adaptive_grid_def Let_def)
  moreover have "\<not> (3 < width \<and> 3 < height)" using Nil grid_candidates_33 by blast
  ultimately show ?thesis by (auto simp add: grid_rows_def grid_cols_def)
next
  case (Cons c cs)
  let ?near = "filter (\<lambda>(rows, cols, cells, cell_aspect, log_error). log_error \<le> target) (c # cs)"
  have "\<exists>g. choose_adaptive_grid width height 3 12 target = Inr g \<and>
          g \<in> set (grid_candidates width height 3 12)"
  proof (cases ?near)
    case Nil
    then have "choose_adaptive_grid width height 3 12 target =
        Inr (min_by (\<lambda>(rows, cols, cells, cell_aspect, log_error). (log_error, cells)) lex_less c cs)"
      using Cons by (simp add: choose_adaptive_grid_def)
    then show ?thesis using min_by_mem[of _ _ c cs] Cons by auto
  next
    case (Cons n ns)
    define g where "g = min_by (\<lambda>(rows, cols, cells, cell_aspect, log_error). (cells, log_error))
        lex_less n ns"
    have eq: "choose_adaptive_grid width height 3 12 target = Inr g"
      using Cons \<open>grid_candidates width height 3 12 = c # cs\<close>
      by (simp add: choose_adaptive_grid_def g_def)
    have sub: "set (n # ns) \<subseteq> set (c # cs)"
      unfolding Cons[symmetric] by (rule filter_is_subset)
    have "g \<in> set (n # ns)" unfolding g_def by (rule min_by_mem)
    with sub have "g \<in> set (c # cs)" by (rule subsetD)
    then have "g \<in> set (grid_candidates width height 3 12)"
      by (simp only: \<open>grid_candidates width height 3 12 = c # cs\<close>)
    with eq show ?thesis by blast
  qed
  then obtain g where g: "choose_adaptive_grid width height 3 12 target = Inr g"
    "g \<in> set (grid_candidates width height 3 12)" by blast
  from grid_candidates_props[OF g(2)] g(1) show ?thesis by auto
qed

theorem choose_adaptive_grid_bounds_witness:
  "(3::int) < 1080 \<and> (3::int) < 2340 \<and>
   (\<exists>g. choose_adaptive_grid 1080 2340 3 12 (1 / 5) = Inr g \<and>
        3 \<le> grid_rows g \<and> grid_rows g \<le> 12 \<and> 3 \<le> grid_cols g \<and> grid_cols g \<le> 12 \<and>
        1 < cell_width 1080 g \<and> 1 < cell_height 2340 g)"
  using choose_adaptive_grid_bounds [of 1080 2340 "1 / 5"] by simp

subsection \<open>Region mapper\<close>

lemma parse_regions_value_total:
  assumes "\<forall>s. v = JStr s \<longrightarrow> (\<forall>w \<in> set (re_findall digits s). length w \<le> 4300)"
  shows "\<exists>rs. parse_regions_value v = Inr rs"
proof (cases v)
  case (JStr s)
  have "\<forall>x \<in> set (map (\<lambda>n. case py_int_str n of Some k \<Rightarrow> Inr k | None \<Rightarrow> Inl ValueError)
          (re_findall digits s)). \<exists>k. x = (Inr k :: py_error + int)"
  proof
    fix x assume "x \<in> set (map (\<lambda>n. case py_int_str n of Some k \<Rightarrow> Inr k | None \<Rightarrow> Inl ValueError)
          (re_findall digits s))"
    then obtain n where n: "n \<in> set (re_findall digits s)"
      and x: "x = (case py_int_str n of Some k \<Rightarrow> Inr k | None \<Rightarrow> Inl ValueError)" by auto
    from n assms JStr have "length n \<le> 4300" by blast
    with re_findall_digits[OF n] digits_py_int_str obtain k where "py_int_str n = Some k"
      by blast
    with x show "\<exists>k. x = Inr k" by simp
  qed
  from collect_Inr[OF this] show ?thesis using JStr by (auto simp: parse_regions_value_def)
qed (auto simp: parse_regions_value_def)

lemma fold_min_le: "fold min xs (a::int) \<le> a \<and> (\<forall>x \<in> set xs. fold min xs a \<le> x)"
proof (induction xs arbitrary: a)
  case Nil then show ?case by simp
next
  case (Cons x xs)
  have 1: "fold min xs (min x a) \<le> min x a" using Cons by blast
  have 2: "\<forall>y \<in> set xs. fold min xs (min x a) \<le> y" using Cons by blast
  show ?case using 1 2 by auto
qed

lemma fold_max_ge: "a \<le> fold max xs (a::int) \<and> (\<forall>x \<in> set xs. x \<le> fold max xs a)"
proof (induction xs arbitrary: a)
  case Nil then show ?case by simp
next
  case (Cons x xs)
  have 1: "max x a \<le> fold max xs (max x a)" using Cons by blast
  have 2: "\<forall>y \<in> set xs. y \<le> fold max xs (max x a)" using Cons by blast
  show ?case using 1 2 by auto
qed

lemma py_min_le: "xs \<noteq> [] \<Longrightarrow> \<exists>m. py_min xs = Inr m \<and> (\<forall>x \<in> set xs. m \<le> x)"
  using fold_min_le by (cases xs) (auto simp: py_min_def)

lemma py_max_ge: "xs \<noteq> [] \<Longrightarrow> \<exists>m. py_max xs = Inr m \<and> (\<forall>x \<in> set xs. x \<le> m)"
  using fold_max_ge by (cases xs) (auto simp: py_max_def)

lemma normalize_regions_nonempty: "normalize_regions raw rows cols \<noteq> []"
  by (simp add: normalize_regions_def Let_def)

lemma region_row_col_Inr:
  "cols \<noteq> 0 \<Longrightarrow> region_row_col r rows cols =
     Inr ((clamp r 1 (rows * cols) - 1) div cols, (clamp r 1 (rows * cols) - 1) mod cols)"
  by (simp add: region_row_col_def Let_def)

lemma parse_regions_value_ints: "parse_regions_value (JList (map JInt rs)) = Inr rs"
proof -
  have "concat (map (\<lambda>x. case py_int x of Some n \<Rightarrow> [n] | None \<Rightarrow> []) (map JInt rs)) = rs"
    by (induction rs) (simp_all add: py_int_def)
  then show ?thesis by (simp add: parse_regions_value_def)
qed

lemma clamp_idem: "lo \<le> hi \<Longrightarrow> clamp (clamp v lo hi) lo hi = clamp v lo hi"
  by (simp add: clamp_def)

lemma clamp_in_normalize_regions:
  "r \<in> set regions_raw \<Longrightarrow> 0 < r \<Longrightarrow>
   clamp r 1 (rows * cols) \<in> set (normalize_regions regions_raw rows cols)"
proof -
  assume r: "r \<in> set regions_raw" "0 < r"
  define n where
    "n = sort (remdups (map (\<lambda>r. clamp r 1 (rows * cols)) (filter (\<lambda>r. 0 < r) regions_raw)))"
  have "clamp r 1 (rows * cols) \<in> set n" using r by (auto simp: n_def)
  moreover from this have "n \<noteq> []" by auto
  ultimately show ?thesis by (simp add: normalize_regions_def Let_def n_def)
qed

text \<open>
  Claim C6: on a grid with at least one row and one column, take any planner dictionary
  (whose regions, if they come as a string, have no run of more than 4300 digits, which
  \<^verbatim>\<open>int\<close> would refuse).  Its input regions are the integers of its \<^verbatim>\<open>regions\<close>
  value, which for a list of integers is that list, and its \<^verbatim>\<open>region\<close>.  The region
  mapper returns a non-empty list of normalized regions that holds every positive input
  region, clamped to the grid; the row range and the column range of the covering
  rectangle contain the row and the column of every normalized region and of every
  positive input region; the right edge of the covering pixel box is the frame width when
  the rectangle's last column is the grid's last column, and its bottom edge is the frame
  height when the rectangle's last row is the grid's last row.
\<close>

theorem rect_cover_contains_inputs:
  assumes "0 < rows" "0 < cols"
    and "\<forall>s. dget planner ''regions'' = JStr s \<longrightarrow>
           (\<forall>w \<in> set (re_findall digits s). length w \<le> 4300)"
  shows "\<exists>parsed normalized rect_regions left ytop right bottom min_row max_row min_col max_col.
     parse_regions_value (dget planner ''regions'') = Inr parsed \<and>
     (\<forall>rs. dget planner ''regions'' = JList (map JInt rs) \<longrightarrow> parsed = rs) \<and>
     rect_cover_from_regions repr planner rows cols width height =
       Inr (normalized, rect_regions, (left, ytop, right, bottom),
            (min_row, max_row, min_col, max_col)) \<and>
     normalized \<noteq> [] \<and>
     (\<forall>r \<in> set normalized. \<exists>row col. region_row_col r rows cols = Inr (row, col) \<and>
        min_row \<le> row \<and> row \<le> max_row \<and> min_col \<le> col \<and> col \<le> max_col) \<and>
     (\<forall>r \<in> set (parsed @ [safe_int (dget_or planner ''region'' (JInt 0)) 0]). 0 < r \<longrightarrow>
        clamp r 1 (rows * cols) \<in> set normalized \<and>
        (\<exists>row col. region_row_col r rows cols = Inr (row, col) \<and>
           min_row \<le> row \<and> row \<le> max_row \<and> min_col \<le> col \<and> col \<le> max_col)) \<and>
     (max_col = cols - 1 \<longrightarrow> right = width) \<and>
     (max_row = rows - 1 \<longrightarrow> bottom = height)"
proof -
  obtain parsed where parsed: "parse_regions_value (dget planner ''regions'') = Inr parsed"
    using parse_regions_value_total[OF assms(3)] by blast
  have ints: "\<forall>rs. dget planner ''regions'' = JList (map JInt rs) \<longrightarrow> parsed = rs"
    using parsed by (auto simp: parse_regions_value_ints)
  define single where "single = safe_int (dget_or planner ''region'' (JInt 0)) 0"
  define regions_raw where "regions_raw = (if 0 < single then parsed @ [single] else parsed)"
  define normalized0 where "normalized0 = normalize_regions regions_raw rows cols"
  define expand where "expand \<longleftrightarrow> length normalized0 = 1 \<and>
     looks_like_horizontal_span_target (py_str repr (dget_or planner ''target'' (JStr [])))"
  define rc where "rc = (\<lambda>r. ((clamp r 1 (rows * cols) - 1) div cols,
                               (clamp r 1 (rows * cols) - 1) mod cols))"
  define normalized where "normalized =
     (if expand then map (\<lambda>c. fst (rc (hd normalized0)) * cols + c + 1) [0..cols - 1]
      else normalized0)"
  have c0: "cols \<noteq> 0" and r0: "rows \<noteq> 0" using assms(1,2) by auto
  have cells: "1 \<le> rows * cols"
  proof -
    have "0 < rows * cols" using assms(1,2) by (rule mult_pos_pos)
    then show ?thesis by simp
  qed
  have rrc: "\<And>r. region_row_col r rows cols = Inr (rc r)"
    using c0 by (simp add: region_row_col_Inr rc_def)
  have ne: "normalized \<noteq> []"
    using assms(2) normalize_regions_nonempty by (auto simp: normalized_def normalized0_def)
  have col: "collect (map (\<lambda>r. region_row_col r rows cols) normalized) = Inr (map rc normalized)"
  proof -
    have "\<forall>x \<in> set (map (\<lambda>r. region_row_col r rows cols) normalized). \<exists>v. x = Inr v"
      using rrc by auto
    from collect_Inr[OF this] obtain vs where vs: "collect (map (\<lambda>r. region_row_col r rows cols) normalized) = Inr vs"
      "map Inr vs = map (\<lambda>r. region_row_col r rows cols) normalized" by blast
    have "map Inr vs = map (Inr :: int \<times> int \<Rightarrow> py_error + int \<times> int) (map rc normalized)"
      using vs(2) rrc by simp
    then have "vs = map rc normalized"
      using inj_map_eq_map[of "Inr :: int \<times> int \<Rightarrow> py_error + int \<times> int"] by (simp only: inj_Inr)
    with vs(1) show ?thesis by simp
  qed
  have ne1: "map fst (map rc normalized) \<noteq> []" "map snd (map rc normalized) \<noteq> []"
    using ne by auto
  obtain min_row where min_row: "py_min (map fst (map rc normalized)) = Inr min_row"
    "\<forall>x \<in> set (map fst (map rc normalized)). min_row \<le> x" using py_min_le[OF ne1(1)] by blast
  obtain max_row where max_row: "py_max (map fst (map rc normalized)) = Inr max_row"
    "\<forall>x \<in> set (map fst (map rc normalized)). x \<le> max_row" using py_max_ge[OF ne1(1)] by blast
  obtain min_col where min_col: "py_min (map snd (map rc normalized)) = Inr min_col"
    "\<forall>x \<in> set (map snd (map rc normalized)). min_col \<le> x" using py_min_le[OF ne1(2)] by blast
  obtain max_col where max_col: "py_max (map snd (map rc normalized)) = Inr max_col"
    "\<forall>x \<in> set (map snd (map rc normalized)). x \<le> max_col" using py_max_ge[OF ne1(2)] by blast
  define rect_regions where "rect_regions = concat (map (\<lambda>rr. map (\<lambda>cc. rr * cols + cc + 1)
                                 [min_col..max_col]) [min_row..max_row])"
  define right where "right = (if max_col = cols - 1 then width else (max_col + 1) * (width div cols))"
  define bottom where "bottom = (if max_row = rows - 1 then height else (max_row + 1) * (height div rows))"
  have sel: "(if length normalized0 = 1 \<and>
              looks_like_horizontal_span_target (py_str repr (dget_or planner ''target'' (JStr [])))
           then (case region_row_col (hd normalized0) rows cols of
                   Inl e \<Rightarrow> Inl e
                 | Inr (row, col) \<Rightarrow> Inr (map (\<lambda>c. row * cols + c + 1) [0..cols - 1]))
           else Inr normalized0) = (Inr normalized :: py_error + int list)"
    by (cases "rc (hd normalized0)") (auto simp: normalized_def expand_def rrc)
  have res: "rect_cover_from_regions repr planner rows cols width height =
       Inr (normalized, rect_regions, (min_col * (width div cols), min_row * (height div rows),
            right, bottom), (min_row, max_row, min_col, max_col))"
    apply (simp only: rect_cover_from_regions_def parsed sum.case Let_def)
    apply (simp only: single_def[symmetric])
    apply (simp only: regions_raw_def[symmetric])
    apply (simp only: normalized0_def[symmetric])
    apply (simp only: sel sum.case col)
    apply (simp only: min_row(1) max_row(1) min_col(1) max_col(1) prod.case sum.case r0 if_False)
    apply (simp only: rect_regions_def right_def bottom_def)
    done
  have inside: "\<forall>r \<in> set normalized. \<exists>row col. region_row_col r rows cols = Inr (row, col) \<and>
        min_row \<le> row \<and> row \<le> max_row \<and> min_col \<le> col \<and> col \<le> max_col"
  proof
    fix r assume r: "r \<in> set normalized"
    have "fst (rc r) \<in> set (map fst (map rc normalized))" "snd (rc r) \<in> set (map snd (map rc normalized))"
      using r by auto
    then have "min_row \<le> fst (rc r)" "fst (rc r) \<le> max_row" "min_col \<le> snd (rc r)" "snd (rc r) \<le> max_col"
      using min_row(2) max_row(2) min_col(2) max_col(2) by blast+
    moreover have "region_row_col r rows cols = Inr (fst (rc r), snd (rc r))" using rrc by simp
    ultimately show "\<exists>row col. region_row_col r rows cols = Inr (row, col) \<and>
        min_row \<le> row \<and> row \<le> max_row \<and> min_col \<le> col \<and> col \<le> max_col" by blast
  qed
  have inputs: "\<forall>r \<in> set (parsed @ [single]). 0 < r \<longrightarrow>
        clamp r 1 (rows * cols) \<in> set normalized \<and>
        (\<exists>row col. region_row_col r rows cols = Inr (row, col) \<and>
           min_row \<le> row \<and> row \<le> max_row \<and> min_col \<le> col \<and> col \<le> max_col)"
  proof (intro ballI impI)
    fix r assume r: "r \<in> set (parsed @ [single])" and pos: "0 < r"
    define x where "x = clamp r 1 (rows * cols)"
    have raw: "r \<in> set regions_raw" using r pos by (auto simp: regions_raw_def)
    have x0: "x \<in> set normalized0"
      unfolding x_def normalized0_def using raw pos by (rule clamp_in_normalize_regions)
    have xx: "clamp x 1 (rows * cols) = x" unfolding x_def using cells by (rule clamp_idem)
    have x1: "x \<in> set normalized"
    proof (cases expand)
      case False
      with x0 show ?thesis by (simp add: normalized_def)
    next
      case True
      then have "length normalized0 = 1" by (simp add: expand_def)
      then obtain y where y: "normalized0 = [y]" by (cases normalized0) auto
      with x0 have hd: "hd normalized0 = x" by simp
      have m: "0 \<le> (x - 1) mod cols" "(x - 1) mod cols \<le> cols - 1"
        using assms(2) by (simp_all add: zle_diff1_eq)
      have "x = (x - 1) div cols * cols + (x - 1) mod cols + 1" by simp
      then have "x \<in> (\<lambda>c. (x - 1) div cols * cols + c + 1) ` {0..cols - 1}"
        using m by (intro image_eqI[where x = "(x - 1) mod cols"]) auto
      then show ?thesis using True by (simp add: normalized_def hd rc_def xx)
    qed
    from inside x1 obtain row col where rc1: "region_row_col x rows cols = Inr (row, col)"
      "min_row \<le> row" "row \<le> max_row" "min_col \<le> col" "col \<le> max_col" by blast
    have "region_row_col r rows cols = region_row_col x rows cols"
      using c0 xx by (simp add: region_row_col_Inr x_def)
    with rc1 x1 show "clamp r 1 (rows * cols) \<in> set normalized \<and>
        (\<exists>row col. region_row_col r rows cols = Inr (row, col) \<and>
           min_row \<le> row \<and> row \<le> max_row \<and> min_col \<le> col \<and> col \<le> max_col)"
      unfolding x_def by auto
  qed
  show ?thesis
    apply (rule exI[of _ parsed], rule exI[of _ normalized], rule exI[of _ rect_regions])
    apply (rule exI[of _ "min_col * (width div cols)"], rule exI[of _ "min_row * (height div rows)"])
    apply (rule exI[of _ right], rule exI[of _ bottom])
    apply (rule exI[of _ min_row], rule exI[of _ max_row])
    apply (rule exI[of _ min_col], rule exI[of _ max_col])
    apply (intro conjI)
    subgoal by (rule parsed)
    subgoal by (rule ints)
    subgoal by (rule res)
    subgoal by (rule ne)
    subgoal by (rule inside)
    subgoal using inputs by (simp only: single_def)
    subgoal by (simp add: right_def)
    subgoal by (simp add: bottom_def)
    done
qed

theorem rect_cover_contains_inputs_witness:
  "(0::int) < 3 \<and>
   parse_regions_value (dget [(''regions'', JList [JInt 1, JInt 9])] ''regions'') = Inr [1, 9] \<and>
   rect_cover_from_regions (\<lambda>v. []) [(''regions'', JList [JInt 1, JInt 9])] 3 3 1080 2340 =
     Inr ([1, 9], [1, 2, 3, 4, 5, 6, 7, 8, 9], (0, 0, 1080, 2340), (0, 2, 0, 2)) \<and>
   region_row_col 9 3 3 = Inr (2, 2)"
  using rect_cover_contains_inputs [of 3 3 "[(''regions'', JList [JInt 1, JInt 9])]"
      "\<lambda>v. []" 1080 2340]
  by (simp add: rect_cover_from_regions_def parse_regions_value_def py_int_def safe_int_def
      dget_def dget_or_def normalize_regions_def clamp_def region_row_col_def py_min_def
      py_max_def upto_rec1 Let_def)

subsection \<open>Region to pixel round trip\<close>

text \<open>Truncation and cell extents.\<close>

lemma int_of_float_between:
  assumes "of_int a \<le> q" "q \<le> of_int b"
  shows "a \<le> int_of_float q \<and> int_of_float q \<le> b"
  using assms unfolding int_of_float_def
  by (auto simp: le_floor_iff floor_le_iff ceiling_le_iff le_ceiling_iff)

lemma ratio_span_between:
  fixes xr :: rat
  assumes "1 \<le> sp"
  shows "of_int l \<le> of_int l + max 0 (min 1 xr) * of_int sp"
    and "of_int l + max 0 (min 1 xr) * of_int sp \<le> of_int (l + sp)"
proof -
  let ?r = "max 0 (min 1 xr)"
  have r: "0 \<le> ?r" "?r \<le> 1" by auto
  have s: "(0::rat) \<le> of_int sp" using assms by simp
  show "of_int l \<le> of_int l + ?r * of_int sp"
    using r(1) s by simp
  have "?r * of_int sp \<le> 1 * of_int sp"
    using r(2) s by (rule mult_right_mono)
  then show "of_int l + ?r * of_int sp \<le> of_int (l + sp)" by simp
qed

lemma cell_times_le:
  fixes w c :: int
  assumes "0 < c"
  shows "c * (w div c) \<le> w"
proof -
  have "w = c * (w div c) + w mod c" by simp
  moreover have "0 \<le> w mod c" using assms by simp
  ultimately show ?thesis by linarith
qed

lemma cell_ge2:
  fixes w c :: int
  assumes "0 < c" "2 * c \<le> w"
  shows "2 \<le> w div c"
proof -
  have "(2 * c) div c \<le> w div c" using assms by (intro zdiv_mono1) auto
  then show ?thesis using assms(1) by simp
qed

lemma edge_extent:
  fixes w c k :: int
  assumes "0 < c" "2 * c \<le> w" "0 \<le> k" "k < c"
  shows "k * (w div c) + 2 \<le> (if k = c - 1 then w else (k + 1) * (w div c))"
proof (cases "k = c - 1")
  case True
  have "c * (w div c) \<le> w" using assms(1) by (rule cell_times_le)
  moreover have "c = k + 1" using True by simp
  then have "c * (w div c) = k * (w div c) + (w div c)" by (simp add: distrib_right)
  moreover have "2 \<le> w div c" using assms(1,2) by (rule cell_ge2)
  ultimately show ?thesis using True by simp
next
  case False
  have "2 \<le> w div c" using assms(1,2) by (rule cell_ge2)
  then show ?thesis using False by (simp add: algebra_simps)
qed


text \<open>
  Claim C7 as stated: for every region index and every pair of ratios in \<open>[0, 1]\<close> the point
  computed by \<open>point_from_region_ratio\<close> lies inside the region's pixel box.  It fails
  when a cell is one pixel wide: on a 4 by 4 frame with a 3 by 3 grid, region 1 has the box
  \<open>(0, 0, 1, 1)\<close>, the guard \<^verbatim>\<open>max(1, right - left - 1)\<close> makes the span 1, and the
  ratios \<open>(1, 1)\<close> give the point \<open>(1, 1)\<close>, which is on the box's right and bottom edge
  and so outside the half-open box.
\<close>

theorem point_from_region_ratio_edge_counterexample:
  "point_from_region_ratio 1 3 3 4 4 1 1 = Inr (1, 1) \<and>
   region_box 1 3 3 4 4 = Inr (0, 0, 1, 1) \<and>
   \<not> in_box (1, 1) (0, 0, 1, 1)"
  by (simp add: point_from_region_ratio_def region_box_def clamp_def int_of_float_def
      in_box_def Let_def)

text \<open>
  Claim C7, amended: on a grid with at least one row and one column whose cells are at least
  two pixels wide and two pixels high (\<open>2 * cols \<le> width\<close>, \<open>2 * rows \<le> height\<close>), for
  every region index and every pair of ratios (both are clamped by the code itself) the
  point computed by \<open>point_from_region_ratio\<close> lies inside the pixel box that
  \<open>region_box\<close> gives for the same region: \<open>left \<le> x < right\<close> and
  \<open>top \<le> y < bottom\<close>.
\<close>

theorem point_from_region_ratio_in_box:
  assumes "0 < rows" "0 < cols" "2 * cols \<le> width" "2 * rows \<le> height"
  shows "\<exists>p b. point_from_region_ratio region rows cols width height xr yr = Inr p \<and>
     region_box region rows cols width height = Inr b \<and> in_box p b"
proof -
  define r where "r = clamp region 1 (rows * cols) - 1"
  define col where "col = r mod cols"
  define row where "row = r div cols"
  have cells: "1 \<le> rows * cols" using assms(1,2)
    by (metis int_one_le_iff_zero_less mult_pos_pos)
  have r0: "0 \<le> r" and r1: "r < rows * cols"
    using cells by (auto simp: r_def clamp_def)
  have col: "0 \<le> col" "col < cols" using assms(2) by (auto simp: col_def)
  have row0: "0 \<le> row" using r0 assms(2) by (simp add: row_def pos_imp_zdiv_nonneg_iff)
  have "cols * row \<le> r" unfolding row_def using assms(2) by (rule cell_times_le)
  then have "cols * row < cols * rows" using r1 by (simp add: mult.commute)
  then have row1: "row < rows" using assms(2) by (simp add: mult_less_cancel_left_pos)
  define left where "left = col * (width div cols)"
  define right where "right = (if col = cols - 1 then width else (col + 1) * (width div cols))"
  define ytop where "ytop = row * (height div rows)"
  define bottom where "bottom = (if row = rows - 1 then height else (row + 1) * (height div rows))"
  have box: "region_box region rows cols width height = Inr (left, ytop, right, bottom)"
    using assms(1,2)
    by (simp add: region_box_def Let_def r_def col_def row_def left_def right_def ytop_def bottom_def)
  have wx: "left + 2 \<le> right"
    unfolding left_def right_def using assms(2,3) col by (rule edge_extent)
  have wy: "ytop + 2 \<le> bottom"
    unfolding ytop_def bottom_def using assms(1,4) row0 row1 by (rule edge_extent)
  define x where "x = int_of_float (of_int left + max 0 (min 1 xr) * of_int (max 1 (right - left - 1)))"
  define y where "y = int_of_float (of_int ytop + max 0 (min 1 yr) * of_int (max 1 (bottom - ytop - 1)))"
  have pt: "point_from_region_ratio region rows cols width height xr yr = Inr (x, y)"
    by (simp add: point_from_region_ratio_def box Let_def x_def y_def)
  have sx: "max 1 (right - left - 1) = right - left - 1" using wx by simp
  have sy: "max 1 (bottom - ytop - 1) = bottom - ytop - 1" using wy by simp
  have "left \<le> x \<and> x \<le> left + (right - left - 1)"
    unfolding x_def sx
    by (rule int_of_float_between; rule ratio_span_between) (use wx in linarith)+
  moreover have "ytop \<le> y \<and> y \<le> ytop + (bottom - ytop - 1)"
    unfolding y_def sy
    by (rule int_of_float_between; rule ratio_span_between) (use wy in linarith)+
  ultimately have "in_box (x, y) (left, ytop, right, bottom)"
    by (simp add: in_box_def)
  with pt box show ?thesis by blast
qed

theorem point_from_region_ratio_in_box_witness:
  "(0::int) < 3 \<and> (2::int) * 3 \<le> 1080 \<and> (2::int) * 3 \<le> 2340 \<and>
   point_from_region_ratio 5 3 3 1080 2340 (1 / 2) 1 = Inr (539, 1559) \<and>
   region_box 5 3 3 1080 2340 = Inr (360, 780, 720, 1560) \<and>
   in_box (539, 1559) (360, 780, 720, 1560)"
proof -
  have fl: "\<lfloor>359 / 2 :: rat\<rfloor> = 179" by (simp add: floor_eq_iff)
  show ?thesis
    using point_from_region_ratio_in_box [of 3 3 1080 2340 5 "1 / 2" 1]
    by (simp add: point_from_region_ratio_def region_box_def clamp_def int_of_float_def
        in_box_def Let_def fl)
qed

section \<open>Controller: truncated planner text\<close>

lemma truncated_text_facts:
  "strip truncated_planner_text = truncated_planner_text"
  "\<not> startswith truncated_planner_text ''```''"
  "re_search rx_braces truncated_planner_text = None"
  by code_simp+

lemma truncated_text_fallback:
  "extract_planner_fallback truncated_planner_text =
     Inr [(''action'', JStr ''tap''), (''region'', JInt 5)]"
  by code_simp

lemma truncated_text_unclosed: "has_unclosed_regions_array truncated_planner_text"
  by code_simp

text \<open>
  Claim C1, as stated, fails in its last part: on the text
  \<^verbatim>\<open>{"action":"tap","region":5,"regions":[5,6\<close> the fallback extractor finds the action
  and the region, but no regions, because its pattern for the regions array asks for the
  closing bracket.
\<close>

theorem truncated_planner_fallback_counterexample:
  "extract_planner_fallback truncated_planner_text =
     Inr [(''action'', JStr ''tap''), (''region'', JInt 5)] \<and>
   map_of [(''action'', JStr ''tap''), (''region'', JInt 5)] ''regions'' = None \<and>
   dget [(''action'', JStr ''tap''), (''region'', JInt 5)] ''regions'' \<noteq> JList [JInt 5, JInt 6]"
  by (simp add: truncated_text_fallback dget_def)

text \<open>
  Claim C1, amended.  When the JSON parser rejects the truncated text, the strict
  extraction returns nothing (the text holds no closing brace, so there is no fragment to
  try), the fallback extractor returns the dictionary with the action \<^verbatim>\<open>tap\<close> and the
  region 5 and nothing else, and that is the planner dictionary of the step.  The array
  that was cut off is not lost: the text is recognised as having an unclosed regions
  array, and a tap with this dictionary asks the model again for the regions, whatever the
  finish reason of the answer was.
\<close>

theorem truncated_planner_fallback:
  assumes "loads truncated_planner_text = None"
  shows "extract_json loads truncated_planner_text = None \<and>
     extract_planner_fallback truncated_planner_text =
       Inr [(''action'', JStr ''tap''), (''region'', JInt 5)] \<and>
     planner_of loads truncated_planner_text =
       Inr [(''action'', JStr ''tap''), (''region'', JInt 5)] \<and>
     has_unclosed_regions_array truncated_planner_text \<and>
     need_regions_repair finish_reason truncated_planner_text
       [(''action'', JStr ''tap''), (''region'', JInt 5)] = Inr True"
proof -
  have ej: "extract_json loads truncated_planner_text = None"
    using assms by (simp add: extract_json_def truncated_text_facts as_dict_def Let_def)
  have nr: "need_regions_repair finish_reason truncated_planner_text
       [(''action'', JStr ''tap''), (''region'', JInt 5)] = Inr True"
    by (simp add: need_regions_repair_def dget_def parse_regions_value_def
        truncated_text_unclosed)
  show ?thesis
    using ej nr by (simp add: planner_of_def truncated_text_fallback truncated_text_unclosed)
qed

lemma sample_loads_truncated: "sample_loads truncated_planner_text = None"
  by code_simp

theorem truncated_planner_fallback_witness:
  "sample_loads truncated_planner_text = None \<and>
   extract_json sample_loads truncated_planner_text = None \<and>
   planner_of sample_loads truncated_planner_text =
     Inr [(''action'', JStr ''tap''), (''region'', JInt 5)] \<and>
   need_regions_repair None truncated_planner_text
     [(''action'', JStr ''tap''), (''region'', JInt 5)] = Inr True"
  using truncated_planner_fallback [of sample_loads None]
  by (simp add: sample_loads_truncated)


section \<open>Agent: state comparator\<close>

lemma bit_count_0: "bit_count 0 = 0"
  by (simp add: bit_count.simps)

lemma hamming_distance_self: "hamming_distance a a = 0"
  by (simp add: hamming_distance_def bit_count_0)

text \<open>
  Claim C8.  For every non-negative threshold, two states with the same source, the same
  signature and the same perceptual hash are reported as the same; and for every
  threshold, two states whose sources differ are reported as different, whatever their
  signatures and hashes are.
\<close>

theorem states_similar_identical_and_mixed:
  "(source p = source c \<and> state_sig p = state_sig c \<and> screen_ahash p = screen_ahash c \<and>
      0 \<le> thr \<longrightarrow> fst (states_similar (Some p) (Some c) thr)) \<and>
   (source a \<noteq> source b \<longrightarrow> \<not> fst (states_similar (Some a) (Some b) thr'))"
  by (auto simp: states_similar_def hamming_distance_self Let_def split: option.splits)

theorem states_similar_identical_and_mixed_witness:
  "fst (states_similar (Some shot_state) (Some shot_state) 0) \<and>
   \<not> fst (states_similar (Some xml_state) (Some shot_state) 64)"
  using states_similar_identical_and_mixed [of shot_state shot_state 0 xml_state shot_state 64]
  by (simp add: xml_state_def shot_state_def)

section \<open>Agent: tap executor\<close>

lemma tap_loop_unchanged:
  assumes cl: "\<forall>i \<in> set is. \<exists>ok body. click env i (tap_point cr x y i) = Inr (ok, body)"
    and af: "\<forall>i \<in> set is. \<exists>st. after_state env i = Inr st \<and>
               fst (states_similar (Some base) (Some st) thr)"
  shows "\<exists>body pt.
     tap_loop env base cr x y thr is any lb fp clicks =
       Inr ((any \<or> (\<exists>i \<in> set is. \<exists>b. click env i (tap_point cr x y i) = Inr (True, b)),
             body, False, pt), clicks @ map (tap_point cr x y) is)"
  using assms
proof (induction "is" arbitrary: any lb fp clicks)
  case Nil
  then show ?case by simp
next
  case (Cons i rest)
  from Cons.prems(1) obtain ok body where c: "click env i (tap_point cr x y i) = Inr (ok, body)"
    by auto
  from Cons.prems(2) obtain st where a: "after_state env i = Inr st"
    "fst (states_similar (Some base) (Some st) thr)" by auto
  have r1: "\<forall>i \<in> set rest. \<exists>ok body. click env i (tap_point cr x y i) = Inr (ok, body)"
    using Cons.prems(1) by simp
  have r2: "\<forall>i \<in> set rest. \<exists>st. after_state env i = Inr st \<and>
               fst (states_similar (Some base) (Some st) thr)"
    using Cons.prems(2) by simp
  show ?case
  proof (cases ok)
    case True
    from Cons.IH[OF r1 r2, of True body "tap_point cr x y i" "clicks @ [tap_point cr x y i]"]
    obtain body' pt' where
      "tap_loop env base cr x y thr rest True body (tap_point cr x y i)
         (clicks @ [tap_point cr x y i]) =
       Inr ((True, body', False, pt'), (clicks @ [tap_point cr x y i]) @ map (tap_point cr x y) rest)"
      by auto
    with c a True show ?thesis by (auto simp: Let_def)
  next
    case False
    from Cons.IH[OF r1 r2, of any body "tap_point cr x y i" "clicks @ [tap_point cr x y i]"]
    obtain body' pt' where
      "tap_loop env base cr x y thr rest any body (tap_point cr x y i)
         (clicks @ [tap_point cr x y i]) =
       Inr ((any \<or> (\<exists>i \<in> set rest. \<exists>b. click env i (tap_point cr x y i) = Inr (True, b)),
             body', False, pt'),
            (clicks @ [tap_point cr x y i]) @ map (tap_point cr x y) rest)"
      by blast
    with c a False show ?thesis by (auto simp: Let_def)
  qed
qed

text \<open>
  Claim C5.  Let the retry count be non-negative, let every click be answered (with
  success or with failure) and let every state captured after a click compare as the same
  as the state before the tap.  Then the tap executor returns, the points it clicked are
  those of the first \<open>min (max_retry + 1) 7\<close> offsets, one click each, a failed click
  included; it reports that the UI did not change, and it reports success exactly when
  one of these clicks succeeded.
\<close>

theorem tap_with_retry_unchanged_ui:
  assumes "0 \<le> max_retry"
    and "\<forall>i<7. \<forall>pt. \<exists>ok body. click env i pt = Inr (ok, body)"
    and "\<forall>i<7. \<exists>st. after_state env i = Inr st \<and>
           fst (states_similar (Some base_state) (Some st) ahash_threshold)"
  shows "\<exists>ok body pt clicks.
     tap_with_retry env base_state x y cr max_retry ahash_threshold =
       Inr ((ok, body, False, pt), clicks) \<and>
     int (length clicks) = min (max_retry + 1) 7 \<and>
     clicks = map (tap_point cr x y) [0..<length clicks] \<and>
     (ok \<longleftrightarrow> (\<exists>i<length clicks. \<exists>b. click env i (clicks ! i) = Inr (True, b)))"
proof -
  define n where "n = nat (min (max_retry + 1) (int (length offsets)))"
  have n7: "n \<le> 7" and nn: "int n = min (max_retry + 1) 7"
    using assms(1) by (auto simp: n_def offsets_def)
  have cl: "\<forall>i \<in> set [0..<n]. \<exists>ok body. click env i (tap_point cr x y i) = Inr (ok, body)"
  proof
    fix i assume "i \<in> set [0..<n]"
    then have "i < 7" using n7 by simp
    with assms(2) show "\<exists>ok body. click env i (tap_point cr x y i) = Inr (ok, body)" by blast
  qed
  have af: "\<forall>i \<in> set [0..<n]. \<exists>st. after_state env i = Inr st \<and>
               fst (states_similar (Some base_state) (Some st) ahash_threshold)"
    using assms(3) n7 by auto
  from tap_loop_unchanged[OF cl af, of False "[]" "(x, y)" "[]"]
  obtain body pt where
    r: "tap_loop env base_state cr x y ahash_threshold [0..<n] False [] (x, y) [] =
       Inr ((\<exists>i \<in> set [0..<n]. \<exists>b. click env i (tap_point cr x y i) = Inr (True, b),
             body, False, pt), map (tap_point cr x y) [0..<n])"
    by auto
  have tw: "tap_with_retry env base_state x y cr max_retry ahash_threshold =
      tap_loop env base_state cr x y ahash_threshold [0..<n] False [] (x, y) []"
    by (simp add: tap_with_retry_def n_def Let_def)
  show ?thesis
    apply (rule exI[of _ "\<exists>i \<in> set [0..<n]. \<exists>b. click env i (tap_point cr x y i) = Inr (True, b)"])
    apply (rule exI[of _ body], rule exI[of _ pt])
    apply (rule exI[of _ "map (tap_point cr x y) [0..<n]"])
    apply (intro conjI)
    subgoal by (simp only: tw r)
    subgoal using nn by simp
    subgoal by simp
    subgoal by (simp add: Bex_def cong: conj_cong)
    done
qed

theorem tap_with_retry_unchanged_ui_witness:
  "(0::int) \<le> 2 \<and>
   tap_with_retry stuck_device shot_state 540 1200 [] 2 6 =
     Inr ((True, ''done'', False, (490, 1200)), [(540, 1200), (590, 1200), (490, 1200)])"
  using tap_with_retry_unchanged_ui [of 2 stuck_device shot_state 6 540 1200 "[]"]
  by (simp add: stuck_device_def shot_state_def tap_with_retry_def offsets_def tap_point_def
      clip_def xmin_of_def xmax_of_def ymin_of_def ymax_of_def range_get_def states_similar_def
      hamming_distance_self upt_rec Let_def)

section \<open>Agent: answer parser\<close>

lemma rx_do_long_tap:
  "\<exists>rest. rx_run rx_do (long_tap_answer (Suc m)) [] =
     ([], [(2, long_tap_args (Suc m)), (1, ''Tap'')]) # rest"
  apply (subst rx_run_as_then)
  apply (simp add: rx_do_def rx_defs then_simps is_space_def long_tap_answer_def long_tap_args_def)
  done


lemma re_match_rx_do_long_tap:
  "\<exists>m. re_match rx_do (long_tap_answer (Suc n)) = Some m \<and>
       group m 1 = Some ''Tap'' \<and> group m 2 = Some (long_tap_args (Suc n))"
proof -
  obtain rest where "rx_run rx_do (long_tap_answer (Suc n)) [] =
     ([], [(2, long_tap_args (Suc n)), (1, ''Tap'')]) # rest"
    using rx_do_long_tap by blast
  then show ?thesis by (simp add: re_match_def re_match_at_def group_def)
qed

lemma rx_pair_long_tap_0:
  "rx_run (rx_pair ''element'') (long_tap_args (Suc n)) [] = []"
  apply (subst rx_run_as_then)
  apply (simp add: rx_pair_def rx_defs then_simps long_tap_args_def)
  done

lemma rx_pair_long_tap_1:
  "rx_run (rx_pair ''element'') (tl (long_tap_args (Suc n))) [] = []"
  apply (subst rx_run_as_then)
  apply (simp add: rx_pair_def rx_defs then_simps long_tap_args_def)
  done

lemma rx_pair_long_tap_2:
  "\<exists>rest. rx_run (rx_pair ''element'') (tl (tl (long_tap_args (Suc n)))) [] =
     ([], [(2, ''2''), (1, replicate (Suc n) CHR ''1'')]) # rest"
  apply (subst rx_run_as_then)
  apply (simp add: rx_pair_def rx_signed_def rx_defs then_simps is_space_def digit_def
      long_tap_args_def)
  done


lemma re_search_rx_pair_long_tap:
  "\<exists>m. re_search (rx_pair ''element'') (long_tap_args (Suc n)) = Some m \<and>
       group m 1 = Some (replicate (Suc n) CHR ''1'') \<and> group m 2 = Some ''2''"
proof -
  define a where "a = tl (tl (long_tap_args (Suc n)))"
  have shape: "long_tap_args (Suc n) = CHR '','' # CHR '' '' # a"
    by (simp add: a_def long_tap_args_def)
  have r0: "rx_run (rx_pair ''element'') (CHR '','' # CHR '' '' # a) [] = []"
    using rx_pair_long_tap_0[of n] by (simp only: shape)
  have r1: "rx_run (rx_pair ''element'') (CHR '' '' # a) [] = []"
    using rx_pair_long_tap_1[of n] by (simp only: shape list.sel)
  obtain rest where r2: "rx_run (rx_pair ''element'') a [] =
     ([], [(2, ''2''), (1, replicate (Suc n) CHR ''1'')]) # rest"
    using rx_pair_long_tap_2[of n] unfolding a_def by blast
  have "\<exists>m. re_search_from (rx_pair ''element'') [CHR '','', CHR '' ''] a = Some m \<and>
       group m 1 = Some (replicate (Suc n) CHR ''1'') \<and> group m 2 = Some ''2''"
  proof -
    have "re_match_at (rx_pair ''element'') [CHR '','', CHR '' ''] a =
        Some \<lparr>m_before = [CHR '','', CHR '' ''], m_text = take (length a - length ([] :: string)) a,
          m_after = [], m_caps = [(2, ''2''), (1, replicate (Suc n) CHR ''1'')]\<rparr>"
      by (simp add: re_match_at_def r2 del: replicate.simps)
    from re_search_from_hit[OF this] show ?thesis
      by (simp add: group_def del: replicate.simps)
  qed
  then show ?thesis
    by (simp add: re_search_def shape re_match_at_def r0 r1)
qed

lemma parse_pair_long_tap:
  assumes "4300 \<le> n"
  shows "parse_pair (long_tap_args (Suc n)) ''element'' = Inl ValueError"
proof -
  obtain m where m: "re_search (rx_pair ''element'') (long_tap_args (Suc n)) = Some m"
    "group m 1 = Some (replicate (Suc n) CHR ''1'')"
    using re_search_rx_pair_long_tap by blast
  have "py_int_str (replicate (Suc n) CHR ''1'') = None"
    using assms by (intro long_digits_py_int_str) (simp_all add: digit_def list_all_iff)
  then show ?thesis using m by (simp add: parse_pair_def group_int_def del: replicate.simps)
qed

lemma parse_action_long_tap:
  assumes "4300 \<le> n"
  shows "parse_action (long_tap_answer (Suc n)) = Inl ValueError"
proof -
  obtain m where m: "re_match rx_do (long_tap_answer (Suc n)) = Some m"
    "group m 1 = Some ''Tap''" "group m 2 = Some (long_tap_args (Suc n))"
    using re_match_rx_do_long_tap by blast
  have st: "strip (long_tap_answer (Suc n)) = long_tap_answer (Suc n)"
    by (intro strip_no_space) (simp_all add: long_tap_answer_def is_space_def)
  have nf: "\<not> startswith (long_tap_answer (Suc n)) ''finish(''"
    by (simp add: startswith_def long_tap_answer_def)
  have tap: "strip ''Tap'' = ''Tap''" by (simp add: strip_def is_space_def)
  show ?thesis
    using m parse_pair_long_tap[OF assms]
    by (simp add: parse_action_def st nf tap group_str_def Let_def del: replicate.simps)
qed

lemma parse_action_short_tap: "parse_action (long_tap_answer 3) = Inr (Tap 111 2)"
  by code_simp

text \<open>
  Claim C9 fails in the code.  The parser is not total: the integers of \<^verbatim>\<open>element\<close>,
  \<^verbatim>\<open>start\<close>, \<^verbatim>\<open>end\<close>, \<^verbatim>\<open>durationMs\<close> and \<^verbatim>\<open>duration\<close> go through \<^verbatim>\<open>int\<close> without a
  guard, and \<^verbatim>\<open>int\<close> refuses a text of more than 4300 digits.  On the answer
  \<^verbatim>\<open>do(action="Tap", element=[11...1,2])\<close> with 4301 digits in the first coordinate the
  pattern of the call and the pattern of the pair both match, and the conversion of the
  first group raises \<^verbatim>\<open>ValueError\<close>; with three digits the same answer is the tap at
  (111, 2).
\<close>

theorem parse_action_raises_on_long_number:
  "parse_action (long_tap_answer 4301) = Inl ValueError \<and>
   parse_action (long_tap_answer 3) = Inr (Tap 111 2)"
proof -
  have "long_tap_answer (Suc 4300) = long_tap_answer 4301" by simp
  with parse_action_long_tap[of 4300] parse_action_short_tap show ?thesis by simp
qed


section \<open>Agent: loop guard\<close>

text \<open>
  Claim C4 fails in the code.  The guard tests the distance of the model's target to the
  last tap point, but then adds the drift to the model's target, to the right whenever
  that stays inside the click range, and does not look at the last tap point again.  With
  the default drift of 50 and a last tap at (400, 900), the target (370, 900) becomes
  (420, 900), 20 away from the last tap point, and the target (351, 900) becomes
  (401, 900), 1 away; both are what the tap executor clicks first.  Only a target at the
  last tap point itself ends the full drift away from it.  In a run of two steps on a
  device whose screen never changes, the first tap ends at (350, 900) and the second
  answer, a tap at (330, 900), is executed at (380, 900), 30 away.
\<close>

theorem force_drift_stays_close:
  "drift_guard_fires default_config 1 (Some (400, 900)) (370, 900) \<and>
   adjust_target default_config 1 (Some (400, 900)) (370, 900) = (420, 900) \<and>
   tap_point (cfg_click_range default_config) 420 900 0 = (420, 900) \<and>
   manhattan (420, 900) (400, 900) = 20 \<and>
   drift_guard_fires default_config 1 (Some (400, 900)) (351, 900) \<and>
   adjust_target default_config 1 (Some (400, 900)) (351, 900) = (401, 900) \<and>
   tap_point (cfg_click_range default_config) 401 900 0 = (401, 900) \<and>
   manhattan (401, 900) (400, 900) = 1 \<and>
   adjust_target default_config 1 (Some (400, 900)) (400, 900) = (450, 900) \<and>
   min_tap_drift_px default_config = 50 \<and>
   run_agent default_config [model_step tap_answer, model_step near_tap_answer] =
     Inr (Exhausted \<lparr>prev_state = Some shot_state, same_state_streak = 1,
            last_tap_point = Some (330, 900),
            dispatched = [Tap 400 900, Tap 330 900],
            sent = [Click 400 900, Click 450 900, Click 350 900,
                    Click 380 900, Click 430 900, Click 330 900]\<rparr>)"
  by code_simp

section \<open>Agent: last tap point\<close>

lemma dispatch_cases:
  assumes "dispatch cfg env state s a = Inr (ok, changed, s')"
  shows "(kind_of a \<in> {''swipe'', ''type'', ''wait''} \<longrightarrow>
            last_tap_point s' = None \<and> dispatched s' = dispatched s @ [a]) \<and>
         (kind_of a = ''tap'' \<longrightarrow>
            (\<exists>x y body clicks p.
               a = Tap x y \<and>
               (case adjust_target cfg (same_state_streak s) (last_tap_point s) (x, y) of
                  (tx, ty) \<Rightarrow>
                    tap_with_retry (env_tap env) state tx ty (cfg_click_range cfg)
                      (tap_retry_on_no_change cfg) (screenshot_ahash_threshold cfg)) =
                 Inr ((ok, body, changed, p), clicks) \<and>
               last_tap_point s' = Some p \<and> dispatched s' = dispatched s @ [a])) \<and>
         (kind_of a \<in> {''finish'', ''invalid''} \<longrightarrow> s' = s)"
  using assms
  by (cases a) (auto simp: dispatch_def kind_of_def split: prod.splits sum.splits)

lemma dispatch_tap_tracked:
  assumes "dispatch cfg env state s a = Inr (ok, changed, s')" "tap_tracked s"
  shows "tap_tracked s'"
  using assms
  by (cases a) (auto simp: dispatch_def kind_of_def tap_tracked_def split: prod.splits sum.splits)

lemma agent_step_tap_tracked:
  assumes "agent_step cfg env s = Inr (Continue s')" "tap_tracked s"
  shows "tap_tracked s'"
proof -
  have upd: "\<And>st k. tap_tracked (s\<lparr>prev_state := st, same_state_streak := k\<rparr>)"
    using assms(2) by (simp add: tap_tracked_def)
  show ?thesis
    using assms(1) upd dispatch_tap_tracked
    by (auto simp: agent_step_def Let_def split: sum.splits option.splits if_splits prod.splits)
qed

lemma run_steps_tap_tracked:
  "run_steps cfg envs s = Inr r \<Longrightarrow> tap_tracked s \<Longrightarrow> tap_tracked (final_state r)"
proof (induction envs arbitrary: s)
  case Nil
  then show ?case by (auto simp: final_state_def)
next
  case (Cons env envs)
  show ?case
  proof (cases "agent_step cfg env s")
    case (Inl e)
    with Cons.prems show ?thesis by simp
  next
    case (Inr res)
    show ?thesis
    proof (cases res)
      case (Finished msg)
      with Inr Cons.prems show ?thesis by (auto simp: final_state_def)
    next
      case (Continue s')
      with Inr Cons.prems have "run_steps cfg envs s' = Inr r" by simp
      moreover have "tap_tracked s'"
        using agent_step_tap_tracked Inr Continue Cons.prems(2) by blast
      ultimately show ?thesis by (rule Cons.IH)
    qed
  qed
qed


text \<open>
  Claim C10.  A dispatched swipe, text input or wait leaves no last tap point, and a
  dispatched tap leaves the final point of the tap executor, run on the target the loop
  guard produced; a \<^verbatim>\<open>finish\<close> or an invalid action that reaches the dispatch changes
  nothing.  Hence in every state the loop reaches from its initial state (the state at the
  end of a run over any list of steps, so the state in which any step starts), a last tap
  point is stored exactly when the action dispatched last was a tap, and whenever the
  loop guard fires on the stored point, for any streak and any target, the action
  dispatched last was a tap.
\<close>

theorem last_tap_point_tracks_taps:
  "(dispatch cfg env state s a = Inr (ok, changed, s') \<longrightarrow>
      (kind_of a \<in> {''swipe'', ''type'', ''wait''} \<longrightarrow>
         last_tap_point s' = None \<and> dispatched s' = dispatched s @ [a]) \<and>
      (kind_of a = ''tap'' \<longrightarrow>
         (\<exists>x y body clicks p.
            a = Tap x y \<and>
            (case adjust_target cfg (same_state_streak s) (last_tap_point s) (x, y) of
               (tx, ty) \<Rightarrow>
                 tap_with_retry (env_tap env) state tx ty (cfg_click_range cfg)
                   (tap_retry_on_no_change cfg) (screenshot_ahash_threshold cfg)) =
              Inr ((ok, body, changed, p), clicks) \<and>
            last_tap_point s' = Some p \<and> dispatched s' = dispatched s @ [a])) \<and>
      (kind_of a \<in> {''finish'', ''invalid''} \<longrightarrow> s' = s)) \<and>
   (run_agent cfg envs = Inr r \<longrightarrow>
      tap_tracked (final_state r) \<and>
      (\<forall>streak target.
         drift_guard_fires cfg streak (last_tap_point (final_state r)) target \<longrightarrow>
           dispatched (final_state r) \<noteq> [] \<and>
           kind_of (last (dispatched (final_state r))) = ''tap''))"
proof (intro conjI impI allI)
  assume run: "run_agent cfg envs = Inr r"
  have "tap_tracked initial_state" by (simp add: tap_tracked_def initial_state_def)
  with run show t: "tap_tracked (final_state r)"
    unfolding run_agent_def by (rule run_steps_tap_tracked)
  fix streak target
  assume "drift_guard_fires cfg streak (last_tap_point (final_state r)) target"
  then have "last_tap_point (final_state r) \<noteq> None"
    by (auto simp: drift_guard_fires_def split: option.splits)
  with t show "dispatched (final_state r) \<noteq> []"
    and "kind_of (last (dispatched (final_state r))) = ''tap''"
    by (auto simp: tap_tracked_def)
qed (use dispatch_cases in blast)+


lemma dispatch_tap_sample:
  "dispatch default_config (model_step tap_answer) shot_state initial_state (Tap 400 900) =
     Inr (True, False, tapped_state)"
  by code_simp

lemma dispatch_swipe_sample:
  "dispatch default_config (model_step tap_answer) shot_state tapped_state
     (Swipe 100 1800 100 600 300) = Inr (True, False, swiped_state)"
  by code_simp

lemma run_tap_sample:
  "run_agent default_config [model_step tap_answer] =
     Inr (Exhausted (tapped_state\<lparr>prev_state := Some shot_state\<rparr>))"
  by code_simp

theorem last_tap_point_tracks_taps_witness:
  "dispatch default_config (model_step tap_answer) shot_state initial_state (Tap 400 900) =
     Inr (True, False, tapped_state) \<and>
   last_tap_point tapped_state = Some (350, 900) \<and>
   dispatch default_config (model_step tap_answer) shot_state tapped_state
     (Swipe 100 1800 100 600 300) = Inr (True, False, swiped_state) \<and>
   last_tap_point swiped_state = None \<and>
   dispatch default_config (model_step tap_answer) shot_state tapped_state (Finish ''ok'') =
     Inr (False, False, tapped_state) \<and>
   run_agent default_config [model_step tap_answer] =
     Inr (Exhausted (tapped_state\<lparr>prev_state := Some shot_state\<rparr>)) \<and>
   drift_guard_fires default_config 1 (last_tap_point tapped_state) (360, 900) \<and>
   last (dispatched tapped_state) = Tap 400 900"
proof -
  have g: "drift_guard_fires default_config 1 (Some (350, 900)) (360, 900)"
    by (simp add: drift_guard_fires_def manhattan_def default_config_def)
  have f: "dispatch default_config (model_step tap_answer) shot_state tapped_state
      (Finish ''ok'') = Inr (False, False, tapped_state)"
    by (simp add: dispatch_def)
  have t: "last_tap_point tapped_state = Some (350, 900)"
    "last (dispatched tapped_state) = Tap 400 900" "last_tap_point swiped_state = None"
    by (simp_all add: tapped_state_def swiped_state_def)
  show ?thesis
    using last_tap_point_tracks_taps [of default_config "model_step tap_answer" shot_state
        initial_state "Tap 400 900" True False tapped_state "[model_step tap_answer]"
        "Exhausted (tapped_state\<lparr>prev_state := Some shot_state\<rparr>)"]
      last_tap_point_tracks_taps [of default_config "model_step tap_answer" shot_state
        tapped_state "Swipe 100 1800 100 600 300" True False swiped_state
        "[model_step tap_answer]"
        "Exhausted (tapped_state\<lparr>prev_state := Some shot_state\<rparr>)"]
      last_tap_point_tracks_taps [of default_config "model_step tap_answer" shot_state
        tapped_state "Finish ''ok''" False False tapped_state "[model_step tap_answer]"
        "Exhausted (tapped_state\<lparr>prev_state := Some shot_state\<rparr>)"]
    by (simp add: dispatch_tap_sample dispatch_swipe_sample run_tap_sample g f t)
qed

section \<open>Agent: coordinates sent to the device\<close>

text \<open>
  Claim C2 fails in the agent.  On a device with the click range 0..1079 by 0..2339, the
  answer \<^verbatim>\<open>do(action="Swipe", start=[5000,5000], end=[-10,-10], durationMs=300)\<close> makes the
  agent send the swipe from (5000, 5000) to (-10, -10) as it is, both points outside the
  click range, while a tap at (5000, -10) is clipped to (1079, 0) before it is sent.
\<close>

theorem agent_swipe_not_clamped:
  "run_agent default_config [model_step far_swipe_answer] =
     Inr (Exhausted \<lparr>prev_state = Some shot_state, same_state_streak = 0,
            last_tap_point = None,
            dispatched = [Swipe 5000 5000 (- 10) (- 10) 300],
            sent = [SwipeCmd 5000 5000 (- 10) (- 10) 300]\<rparr>) \<and>
   \<not> in_click_range (cfg_click_range default_config) (5000, 5000) \<and>
   \<not> in_click_range (cfg_click_range default_config) (- 10, - 10) \<and>
   run_agent default_config [model_step far_tap_answer] =
     Inr (Exhausted \<lparr>prev_state = Some shot_state, same_state_streak = 0,
            last_tap_point = Some (1079, 0),
            dispatched = [Tap 5000 (- 10)],
            sent = [Click 1079 0, Click 1079 0, Click 1079 0]\<rparr>)"
  by code_simp


end
